theory Spec2Isabelle
  imports Complex_Main "HOL-Library.Char_ord" "HOL-Library.List_Lexorder" "HOL-Library.AList"
begin

section \<open>The JavaScript values the storage layer computes with\<close>

text \<open>
  \<^verbatim>\<open>server/storage.ts\<close> holds two implementations of \<^verbatim>\<open>IStorage\<close>: \<^verbatim>\<open>MemStorage\<close> (JavaScript
  maps) and \<^verbatim>\<open>DatabaseStorage\<close> (relational tables behind drizzle). Both are embedded here, the
  first with the prefix \<open>mem_\<close>, the second with the prefix \<open>db_\<close>.

  Conventions of the embedding:
  \<^item> A JavaScript number is a \<open>jsnum\<close>: a finite value (an exact rational), the two
    infinities, or NaN. Rounding of IEEE doubles, overflow to infinity and the sign of zero are
    not represented; everything the code decides by comparing with NaN or by guarding a
    division is.
  \<^item> A \<^verbatim>\<open>Date\<close> object is its time value, the milliseconds since 1970-01-01T00:00:00Z, and
    \<open>None\<close> stands for \<^verbatim>\<open>Invalid Date\<close>. The time zone of the host is a parameter of every
    function that reads or sets local calendar fields (\<^verbatim>\<open>getFullYear\<close>, \<^verbatim>\<open>getMonth\<close>,
    \<^verbatim>\<open>getDate\<close>, \<^verbatim>\<open>setDate\<close>, \<^verbatim>\<open>new Date(y, m, d)\<close>); \<^verbatim>\<open>new Date(s)\<close> of a date string and
    \<^verbatim>\<open>toISOString\<close> work in UTC, as the language defines them.
  \<^item> Date strings stay strings: records carry them, lookups compare them, and range filters
    order them lexicographically, as the source does.
\<close>

datatype jsnum = Num rat | PInf | NInf | NaN

fun js_add :: "jsnum \<Rightarrow> jsnum \<Rightarrow> jsnum" where
  "js_add (Num a) (Num b) = Num (a + b)"
| "js_add NaN _ = NaN"
| "js_add _ NaN = NaN"
| "js_add PInf NInf = NaN"
| "js_add NInf PInf = NaN"
| "js_add PInf _ = PInf"
| "js_add _ PInf = PInf"
| "js_add NInf _ = NInf"
| "js_add _ NInf = NInf"

fun js_mul :: "jsnum \<Rightarrow> jsnum \<Rightarrow> jsnum" where
  "js_mul (Num a) (Num b) = Num (a * b)"
| "js_mul NaN _ = NaN"
| "js_mul _ NaN = NaN"
| "js_mul PInf (Num b) = (if b = 0 then NaN else if 0 < b then PInf else NInf)"
| "js_mul NInf (Num b) = (if b = 0 then NaN else if 0 < b then NInf else PInf)"
| "js_mul (Num a) PInf = (if a = 0 then NaN else if 0 < a then PInf else NInf)"
| "js_mul (Num a) NInf = (if a = 0 then NaN else if 0 < a then NInf else PInf)"
| "js_mul PInf PInf = PInf"
| "js_mul NInf NInf = PInf"
| "js_mul PInf NInf = NInf"
| "js_mul NInf PInf = NInf"

fun js_div :: "jsnum \<Rightarrow> jsnum \<Rightarrow> jsnum" where
  "js_div (Num a) (Num b) =
     (if b = 0 then (if a = 0 then NaN else if 0 < a then PInf else NInf) else Num (a / b))"
| "js_div NaN _ = NaN"
| "js_div _ NaN = NaN"
| "js_div (Num a) _ = Num 0"
| "js_div PInf (Num b) = (if 0 \<le> b then PInf else NInf)"
| "js_div NInf (Num b) = (if 0 \<le> b then NInf else PInf)"
| "js_div _ _ = NaN"

fun js_abs :: "jsnum \<Rightarrow> jsnum" where
  "js_abs (Num a) = Num \<bar>a\<bar>"
| "js_abs PInf = PInf"
| "js_abs NInf = PInf"
| "js_abs NaN = NaN"

text \<open>\<^verbatim>\<open>a < b\<close> and \<^verbatim>\<open>a > b\<close>: false as soon as one side is NaN.\<close>

fun js_lt :: "jsnum \<Rightarrow> jsnum \<Rightarrow> bool" where
  "js_lt (Num a) (Num b) = (a < b)"
| "js_lt NaN _ = False"
| "js_lt _ NaN = False"
| "js_lt _ NInf = False"
| "js_lt PInf _ = False"
| "js_lt _ _ = True"

definition js_gt :: "jsnum \<Rightarrow> jsnum \<Rightarrow> bool" where
  "js_gt a b = js_lt b a"

fun js_isNaN :: "jsnum \<Rightarrow> bool" where
  "js_isNaN NaN = True"
| "js_isNaN _ = False"

text \<open>\<^verbatim>\<open>Math.round\<close>: the nearest integer, a tie going up.\<close>

fun js_round :: "jsnum \<Rightarrow> jsnum" where
  "js_round (Num a) = Num (of_int \<lfloor>a + 1 / 2\<rfloor>)"
| "js_round x = x"

definition js_of_nat :: "nat \<Rightarrow> jsnum" where
  "js_of_nat n = Num (of_nat n)"

text \<open>\<^verbatim>\<open>Math.round(x * 100) / 100\<close>, the two-decimal rounding of the statistics.\<close>

definition round2 :: "jsnum \<Rightarrow> jsnum" where
  "round2 x = js_div (js_round (js_mul x (Num 100))) (Num 100)"

subsection \<open>Strings of digits\<close>

definition is_digit :: "char \<Rightarrow> bool" where
  "is_digit c = (48 \<le> (of_char c :: nat) \<and> (of_char c :: nat) \<le> 57)"

definition digit_val :: "char \<Rightarrow> nat" where
  "digit_val c = of_char c - 48"

definition digit_char :: "nat \<Rightarrow> char" where
  "digit_char n = ''0123456789'' ! n"

definition digits_val :: "string \<Rightarrow> nat" where
  "digits_val s = foldl (\<lambda>acc c. 10 * acc + digit_val c) 0 s"

fun digits :: "nat \<Rightarrow> string" where
  "digits n = (if n < 10 then [digit_char n] else digits (n div 10) @ [digit_char (n mod 10)])"

declare digits.simps [simp del]

text \<open>\<^verbatim>\<open>String(n)\<close> and \<^verbatim>\<open>`${n}`\<close> for an integer \<open>n\<close>.\<close>

definition js_String :: "int \<Rightarrow> string" where
  "js_String n = (if n < 0 then CHR ''-'' # digits (nat (- n)) else digits (nat n))"

definition padStart :: "nat \<Rightarrow> char \<Rightarrow> string \<Rightarrow> string" where
  "padStart n c s = replicate (n - length s) c @ s"

text \<open>A JavaScript string in a condition: \<^verbatim>\<open>null\<close>, \<^verbatim>\<open>undefined\<close> and \<^verbatim>\<open>""\<close> are falsy.\<close>

fun truthy :: "string option \<Rightarrow> bool" where
  "truthy None = False"
| "truthy (Some s) = (s \<noteq> [])"

subsection \<open>parseFloat\<close>

text \<open>
  \<^verbatim>\<open>parseFloat\<close> skips leading white space and reads the longest prefix that is a decimal
  literal: an optional sign, then \<^verbatim>\<open>Infinity\<close> or digits with an optional fraction and an
  optional exponent. What follows the literal is ignored; with no literal the result is NaN.
\<close>

definition is_ws :: "char \<Rightarrow> bool" where
  "is_ws c = ((of_char c :: nat) \<in> {9, 10, 11, 12, 13, 32})"

definition exponent_part :: "string \<Rightarrow> int" where
  "exponent_part r =
     (case r of
        [] \<Rightarrow> 0
      | c # r1 \<Rightarrow>
          if c = CHR ''e'' \<or> c = CHR ''E'' then
            (case r1 of
               [] \<Rightarrow> 0
             | s # r2 \<Rightarrow>
                 if s = CHR ''-'' then
                   (if takeWhile is_digit r2 = [] then 0 else - int (digits_val (takeWhile is_digit r2)))
                 else if s = CHR ''+'' then int (digits_val (takeWhile is_digit r2))
                 else int (digits_val (takeWhile is_digit r1)))
          else 0)"

definition scale10 :: "rat \<Rightarrow> int \<Rightarrow> rat" where
  "scale10 x e = (if 0 \<le> e then x * 10 ^ nat e else x / 10 ^ nat (- e))"

definition parseFloat :: "string \<Rightarrow> jsnum" where
  "parseFloat s =
     (let t = dropWhile is_ws s;
          neg = (case t of [] \<Rightarrow> False | c # _ \<Rightarrow> c = CHR ''-'');
          u = (case t of [] \<Rightarrow> [] | c # t' \<Rightarrow> if c = CHR ''-'' \<or> c = CHR ''+'' then t' else t)
      in if take 8 u = ''Infinity'' then (if neg then NInf else PInf)
         else
           let ip = takeWhile is_digit u;
               r = dropWhile is_digit u;
               dot = (case r of [] \<Rightarrow> False | c # _ \<Rightarrow> c = CHR ''.'');
               fp = (if dot then takeWhile is_digit (tl r) else []);
               r2 = (if dot then dropWhile is_digit (tl r) else r)
           in if ip = [] \<and> fp = [] then NaN
              else
                let mant = of_nat (digits_val (ip @ fp)) / 10 ^ length fp;
                    v = scale10 mant (exponent_part r2)
                in Num (if neg then - v else v))"

subsection \<open>Dates\<close>

text \<open>
  The proleptic Gregorian calendar as \<^verbatim>\<open>Date\<close> implements it: \<open>days_from_civil\<close> is the day
  number of a calendar date (\<^verbatim>\<open>MakeDay\<close>), \<open>civil_from_days\<close> reads year, month and day back
  (\<^verbatim>\<open>YearFromTime\<close>, \<^verbatim>\<open>MonthFromTime\<close>, \<^verbatim>\<open>DateFromTime\<close>). Years are counted from March, so
  that the leap day is the last day of a year.
\<close>

definition days_from_civil :: "int \<Rightarrow> int \<Rightarrow> int \<Rightarrow> int" where
  "days_from_civil y m d =
     (let y' = (if m \<le> 2 then y - 1 else y);
          era = y' div 400;
          yoe = y' mod 400;
          mp = (m + 9) mod 12;
          doy = (153 * mp + 2) div 5 + d - 1;
          doe = yoe * 365 + yoe div 4 - yoe div 100 + doy
      in era * 146097 + doe - 719468)"

definition civil_from_days :: "int \<Rightarrow> int \<times> int \<times> int" where
  "civil_from_days z =
     (let n = z + 719468;
          era = n div 146097;
          doe = n mod 146097;
          c = min 3 (doe div 36524);
          doc = doe - c * 36524;
          q = doc div 1461;
          doq = doc mod 1461;
          a = min 3 (doq div 365);
          doy = doq - a * 365;
          yoe = 100 * c + 4 * q + a;
          mp = (5 * doy + 2) div 153;
          d = doy - (153 * mp + 2) div 5 + 1;
          m = (if mp < 10 then mp + 3 else mp - 9);
          y = yoe + era * 400
      in (if m \<le> 2 then y + 1 else y, m, d))"

definition is_leap :: "int \<Rightarrow> bool" where
  "is_leap y = (y mod 4 = 0 \<and> (y mod 100 \<noteq> 0 \<or> y mod 400 = 0))"

definition days_in_month :: "int \<Rightarrow> int \<Rightarrow> int" where
  "days_in_month y m =
     (if m = 2 then (if is_leap y then 29 else 28)
      else if m = 4 \<or> m = 6 \<or> m = 9 \<or> m = 11 then 30 else 31)"

definition days_before_year :: "int \<Rightarrow> int" where
  "days_before_year y =
     (y div 400) * 146097 + (y mod 400) * 365 + (y mod 400) div 4 - (y mod 400) div 100"

text \<open>Year, month (January is 0) and day of the month of a day number.\<close>

definition yearOfDay :: "int \<Rightarrow> int" where
  "yearOfDay n = fst (civil_from_days n)"

definition monthOfDay :: "int \<Rightarrow> int" where
  "monthOfDay n = fst (snd (civil_from_days n)) - 1"

definition dateOfDay :: "int \<Rightarrow> int" where
  "dateOfDay n = snd (snd (civil_from_days n))"

text \<open>
  Time values, with the names the language definition gives these operations. \<open>MakeDay\<close>
  carries a month index outside 0..11 into the year and a day outside the month into the
  neighbouring months (day 0 is the last day of the month before); \<open>TimeClip\<close> turns a
  time value more than 100 000 000 days from the epoch into NaN.
\<close>

definition msPerDay :: int where
  "msPerDay = 86400000"

definition Day :: "int \<Rightarrow> int" where
  "Day t = t div msPerDay"

definition TimeWithinDay :: "int \<Rightarrow> int" where
  "TimeWithinDay t = t mod msPerDay"

definition MakeDay :: "int \<Rightarrow> int \<Rightarrow> int \<Rightarrow> int" where
  "MakeDay year month date = days_from_civil (year + month div 12) (month mod 12 + 1) 1 + date - 1"

definition MakeDate :: "int \<Rightarrow> int \<Rightarrow> int" where
  "MakeDate day time = day * msPerDay + time"

definition TimeClip :: "int \<Rightarrow> int option" where
  "TimeClip t = (if \<bar>t\<bar> \<le> 8640000000000000 then Some t else None)"

subsection \<open>The time zone of the host\<close>

text \<open>
  A time zone gives the offset of local time from UTC, in milliseconds, twice: \<open>u t\<close> for a
  UTC time value \<open>t\<close> (\<^verbatim>\<open>LocalTZA(t, true)\<close>) and \<open>l t\<close> for a local time value \<open>t\<close>
  (\<^verbatim>\<open>LocalTZA(t, false)\<close>, which for a local time that a clock change skips or repeats is the
  offset before the change). The zones considered are those in which
  \<^item> an offset is less than a day,
  \<^item> the same local time one day later is a later instant, and one day earlier an earlier
    one,
  \<^item> a local time converted to UTC and back is the same local time, or, when the clock
    skipped it, a later one less than a day on.

  The zones with a constant offset of less than a day are of this kind, and so is Central
  European time with its two clock changes a year; both are used below.
\<close>

definition zone_ok :: "(int \<Rightarrow> int) \<Rightarrow> (int \<Rightarrow> int) \<Rightarrow> bool" where
  "zone_ok u l \<longleftrightarrow>
     (\<forall>t. \<bar>u t\<bar> < msPerDay \<and> \<bar>l t\<bar> < msPerDay \<and>
          l (t + u t + msPerDay) < u t + msPerDay \<and>
          u t - msPerDay < l (t + u t - msPerDay) \<and>
          l t \<le> u (t - l t) \<and> u (t - l t) < l t + msPerDay)"

typedef timezone = "{z :: (int \<Rightarrow> int) \<times> (int \<Rightarrow> int). zone_ok (fst z) (snd z)}"
proof
  show "(\<lambda>t. 0, \<lambda>t. 0) \<in> {z :: (int \<Rightarrow> int) \<times> (int \<Rightarrow> int). zone_ok (fst z) (snd z)}"
    by (simp add: zone_ok_def msPerDay_def)
qed

definition LocalTZA :: "timezone \<Rightarrow> int \<Rightarrow> bool \<Rightarrow> int" where
  "LocalTZA z t isUTC = (if isUTC then fst (Rep_timezone z) t else snd (Rep_timezone z) t)"

definition LocalTime :: "timezone \<Rightarrow> int \<Rightarrow> int" where
  "LocalTime z t = t + LocalTZA z t True"

definition UTC :: "timezone \<Rightarrow> int \<Rightarrow> int" where
  "UTC z t = t - LocalTZA z t False"

text \<open>The zone with a constant offset; UTC is the one with offset 0.\<close>

definition fixed_zone :: "int \<Rightarrow> timezone" where
  "fixed_zone c = Abs_timezone (if \<bar>c\<bar> < msPerDay then (\<lambda>t. c, \<lambda>t. c) else (\<lambda>t. 0, \<lambda>t. 0))"

definition utc :: timezone where
  "utc = fixed_zone 0"

subsection \<open>The methods of Date\<close>

text \<open>
  \<^verbatim>\<open>getFullYear()\<close>, \<^verbatim>\<open>getMonth()\<close> and \<^verbatim>\<open>getDate()\<close> read the local time of a valid date.
\<close>

definition getFullYear :: "timezone \<Rightarrow> int \<Rightarrow> int" where
  "getFullYear z t = yearOfDay (Day (LocalTime z t))"

definition getMonth :: "timezone \<Rightarrow> int \<Rightarrow> int" where
  "getMonth z t = monthOfDay (Day (LocalTime z t))"

definition getDate :: "timezone \<Rightarrow> int \<Rightarrow> int" where
  "getDate z t = dateOfDay (Day (LocalTime z t))"

text \<open>
  \<^verbatim>\<open>new Date(year, monthIndex, day)\<close> is midnight of that day in local time; a year from 0 to
  99 means 1900 + year.
\<close>

definition fullYear :: "int \<Rightarrow> int" where
  "fullYear year = (if 0 \<le> year \<and> year \<le> 99 then 1900 + year else year)"

definition newDate :: "timezone \<Rightarrow> int \<Rightarrow> int \<Rightarrow> int \<Rightarrow> int option" where
  "newDate z year monthIndex day =
     TimeClip (UTC z (MakeDate (MakeDay (fullYear year) monthIndex day) 0))"

text \<open>\<^verbatim>\<open>d.setDate(date)\<close> for a valid \<^verbatim>\<open>d\<close>: the new time value.\<close>

definition setDate :: "timezone \<Rightarrow> int \<Rightarrow> int \<Rightarrow> int option" where
  "setDate z t date =
     (let lt = LocalTime z t
      in TimeClip (UTC z (MakeDate (MakeDay (yearOfDay (Day lt)) (monthOfDay (Day lt)) date)
                                   (TimeWithinDay lt))))"

text \<open>
  \<^verbatim>\<open>d.setDate(d.getDate() + n)\<close>, the step of every date loop in the storage layer: the local
  time \<open>n\<close> days on, at the same time of day (\<open>setDate_getDate\<close> below is the equation with
  \<open>setDate\<close> and \<open>getDate\<close>). \<open>TimeClip\<close> is left out of the step. The loops that compare the
  date with a valid bound end on a value out of range as they end on NaN; the loop of 365
  steps walks back from a date string, whose year is between 0 and 9999, and stays in range.
\<close>

definition addDays :: "timezone \<Rightarrow> int \<Rightarrow> int \<Rightarrow> int" where
  "addDays z t n = UTC z (LocalTime z t + n * msPerDay)"

text \<open>
  The date part of \<^verbatim>\<open>toISOString()\<close>, that is \<^verbatim>\<open>d.toISOString().split('T')[0]\<close>: the UTC date,
  with four digits for the years 0 to 9999, a sign and six digits otherwise.
\<close>

definition isoDate :: "int \<Rightarrow> int \<Rightarrow> int \<Rightarrow> string" where
  "isoDate y m d =
     (if 0 \<le> y \<and> y \<le> 9999 then padStart 4 CHR ''0'' (digits (nat y))
      else (if y < 0 then CHR ''-'' else CHR ''+'') # padStart 6 CHR ''0'' (digits (nat \<bar>y\<bar>)))
     @ ''-'' @ padStart 2 CHR ''0'' (digits (nat m)) @ ''-'' @ padStart 2 CHR ''0'' (digits (nat d))"

definition isoDay :: "int \<Rightarrow> string" where
  "isoDay n = (case civil_from_days n of (y, m, d) \<Rightarrow> isoDate y m d)"

definition toISODate :: "int \<Rightarrow> string" where
  "toISODate t = isoDay (Day t)"

text \<open>
  \<^verbatim>\<open>new Date(s)\<close> for a date string. The form the application uses, \<^verbatim>\<open>YYYY-MM-DD\<close>, is read as
  midnight UTC of that day; V8 accepts a month from 1 to 12 and a day from 1 to 31 and lets
  a day past the end of the month run into the next one. Any other string counts as
  \<^verbatim>\<open>Invalid Date\<close> here: the other formats V8 reads (with a time, or by its legacy parser)
  are not represented, and the statements below are about date strings of this form.
\<close>

definition parseDay :: "string \<Rightarrow> int option" where
  "parseDay s =
     (if length s = 10 \<and> s ! 4 = CHR ''-'' \<and> s ! 7 = CHR ''-''
         \<and> list_all is_digit (take 4 s) \<and> list_all is_digit (take 2 (drop 5 s))
         \<and> list_all is_digit (drop 8 s)
      then
        let y = int (digits_val (take 4 s));
            m = int (digits_val (take 2 (drop 5 s)));
            d = int (digits_val (drop 8 s))
        in if 1 \<le> m \<and> m \<le> 12 \<and> 1 \<le> d \<and> d \<le> 31
           then Some (days_from_civil y m 1 + d - 1) else None
      else None)"

definition parseDate :: "string \<Rightarrow> int option" where
  "parseDate s = map_option (\<lambda>n. n * msPerDay) (parseDay s)"

section \<open>The data model\<close>

text \<open>
  The entity types come from \<^verbatim>\<open>@shared/schema\<close>; the records below carry the fields that
  \<^verbatim>\<open>server/storage.ts\<close> reads or writes. A trade review has further descriptive columns
  (instrument, prices, tags, notes, rating) that no operation here inspects.
\<close>

record Habit =
  h_id :: nat
  h_name :: string
  h_description :: "string option"
  h_category :: string
  h_isActive :: bool

record InsertHabit =
  ih_name :: string
  ih_description :: "string option"
  ih_category :: "string option"

text \<open>\<^verbatim>\<open>Partial<InsertHabit>\<close>: \<open>None\<close> is an absent key.\<close>

record PartialInsertHabit =
  ph_name :: "string option"
  ph_description :: "string option option"
  ph_category :: "string option"

record HabitCompletion =
  c_id :: nat
  c_habitId :: nat
  c_date :: string
  c_completed :: bool

record InsertHabitCompletion =
  ic_habitId :: nat
  ic_date :: string
  ic_completed :: "bool option"

record TradeReview =
  t_id :: nat
  t_date :: string
  t_pnl :: "string option"
  t_emotionalState :: "string option"

record InsertTradeReview =
  it_date :: string
  it_pnl :: "string option"
  it_emotionalState :: "string option"

record PartialInsertTradeReview =
  pt_date :: "string option"
  pt_pnl :: "string option option"
  pt_emotionalState :: "string option option"

record HabitWithStats =
  hs_habit :: Habit
  currentStreak :: nat
  completionRate :: jsnum
  completedToday :: bool
  monthlyCompletions :: nat
  totalDaysThisMonth :: jsnum

record DayProgress =
  p_date :: string
  p_completionRate :: jsnum

record MonthlyStats =
  ms_bestStreak :: nat
  ms_totalHabits :: nat
  ms_completionRate :: jsnum
  ms_perfectDays :: nat

record TradingStats =
  totalTrades :: nat
  winRate :: jsnum
  totalPnL :: jsnum
  avgWin :: jsnum
  avgLoss :: jsnum
  profitFactor :: jsnum
  emotionalStates :: "(string \<times> nat) list"

datatype error = RangeError

text \<open>\<^verbatim>\<open>parseFloat(t.pnl)\<close>; a \<^verbatim>\<open>null\<close> is converted to the string \<^verbatim>\<open>"null"\<close> and parses to NaN.\<close>

definition pnl_value :: "TradeReview \<Rightarrow> jsnum" where
  "pnl_value t = (case t_pnl t of None \<Rightarrow> NaN | Some s \<Rightarrow> parseFloat s)"

text \<open>
  \<^verbatim>\<open>emotionalStates[k] = (emotionalStates[k] || 0) + 1\<close> on an object whose keys keep
  their order of insertion.
\<close>

definition bump :: "(string \<times> nat) list \<Rightarrow> string \<Rightarrow> (string \<times> nat) list" where
  "bump m k = AList.update k (case map_of m k of None \<Rightarrow> 1 | Some n \<Rightarrow> n + 1) m"

definition count_state :: "(string \<times> nat) list \<Rightarrow> TradeReview \<Rightarrow> (string \<times> nat) list" where
  "count_state m trade =
     (if truthy (t_emotionalState trade) then bump m (the (t_emotionalState trade)) else m)"

definition no_trades :: TradingStats where
  "no_trades = \<lparr> totalTrades = 0, winRate = Num 0, totalPnL = Num 0, avgWin = Num 0,
       avgLoss = Num 0, profitFactor = Num 0, emotionalStates = [] \<rparr>"

text \<open>\<^verbatim>\<open>xs.reduce((sum, t) => sum + parseFloat(t.pnl!), 0)\<close>\<close>

definition sum_pnl :: "TradeReview list \<Rightarrow> jsnum" where
  "sum_pnl ts = foldl (\<lambda>sum t. js_add sum (pnl_value t)) (Num 0) ts"

section \<open>MemStorage\<close>

text \<open>
  A JavaScript \<^verbatim>\<open>Map\<close> is an association list in insertion order: \<^verbatim>\<open>get\<close> is \<open>map_of\<close>,
  \<^verbatim>\<open>set\<close> is \<open>AList.update\<close> (an existing key keeps its place, a new one goes last),
  \<^verbatim>\<open>delete\<close> is \<open>AList.delete\<close> and \<^verbatim>\<open>Array.from(m.values())\<close> is \<open>map snd\<close>. The key
  \<^verbatim>\<open>`${habitId}-${date}`\<close> of a completion is the pair of its two parts. The maps of
  check-ins, journal entries, goals and risk metrics take no part in the operations below
  and are left out.
\<close>

record MemStorage =
  habits :: "(nat \<times> Habit) list"
  habitCompletions :: "((nat \<times> string) \<times> HabitCompletion) list"
  tradeReviews :: "(nat \<times> TradeReview) list"
  currentHabitId :: nat
  currentCompletionId :: nat
  currentTradeId :: nat

definition mem_getHabits :: "MemStorage \<Rightarrow> Habit list" where
  "mem_getHabits st = filter h_isActive (map snd (habits st))"

definition mem_getHabit :: "MemStorage \<Rightarrow> nat \<Rightarrow> Habit option" where
  "mem_getHabit st i = map_of (habits st) i"

definition mem_createHabit :: "InsertHabit \<Rightarrow> MemStorage \<Rightarrow> Habit \<times> MemStorage" where
  "mem_createHabit insertHabit st =
     (let habit = \<lparr> h_id = currentHabitId st, h_name = ih_name insertHabit,
            h_description = (if truthy (ih_description insertHabit) then ih_description insertHabit else None),
            h_category = (if truthy (ih_category insertHabit) then the (ih_category insertHabit) else ''custom''),
            h_isActive = True \<rparr>
      in (habit, st\<lparr> habits := AList.update (h_id habit) habit (habits st),
                      currentHabitId := currentHabitId st + 1 \<rparr>))"

definition apply_habit_updates :: "Habit \<Rightarrow> PartialInsertHabit \<Rightarrow> Habit" where
  "apply_habit_updates habit updates =
     habit\<lparr> h_name := (case ph_name updates of None \<Rightarrow> h_name habit | Some n \<Rightarrow> n),
            h_description := (case ph_description updates of None \<Rightarrow> h_description habit | Some d \<Rightarrow> d),
            h_category := (case ph_category updates of None \<Rightarrow> h_category habit | Some c \<Rightarrow> c) \<rparr>"

definition mem_updateHabit :: "nat \<Rightarrow> PartialInsertHabit \<Rightarrow> MemStorage \<Rightarrow> Habit option \<times> MemStorage" where
  "mem_updateHabit i updates st =
     (case map_of (habits st) i of
        None \<Rightarrow> (None, st)
      | Some habit \<Rightarrow>
          let updatedHabit = apply_habit_updates habit updates
          in (Some updatedHabit, st\<lparr> habits := AList.update i updatedHabit (habits st) \<rparr>))"

definition mem_deleteHabit :: "nat \<Rightarrow> MemStorage \<Rightarrow> bool \<times> MemStorage" where
  "mem_deleteHabit i st =
     (case map_of (habits st) i of
        None \<Rightarrow> (False, st)
      | Some habit \<Rightarrow>
          let updatedHabit = habit\<lparr> h_isActive := False \<rparr>
          in (True, st\<lparr> habits := AList.update i updatedHabit (habits st) \<rparr>))"

text \<open>
  The optional bounds of the two list queries: a bound that is absent or empty is not
  applied (\<^verbatim>\<open>if (startDate && completion.date < startDate) return false\<close>).
\<close>

definition in_range :: "string option \<Rightarrow> string option \<Rightarrow> string \<Rightarrow> bool" where
  "in_range startDate endDate d =
     (if truthy startDate \<and> d < the startDate then False
      else if truthy endDate \<and> d > the endDate then False
      else True)"

definition mem_getHabitCompletions ::
  "MemStorage \<Rightarrow> nat \<Rightarrow> string option \<Rightarrow> string option \<Rightarrow> HabitCompletion list" where
  "mem_getHabitCompletions st habitId startDate endDate =
     filter (\<lambda>completion.
        if c_habitId completion \<noteq> habitId then False
        else in_range startDate endDate (c_date completion))
       (map snd (habitCompletions st))"

definition mem_getHabitCompletion :: "MemStorage \<Rightarrow> nat \<Rightarrow> string \<Rightarrow> HabitCompletion option" where
  "mem_getHabitCompletion st habitId date = map_of (habitCompletions st) (habitId, date)"

definition mem_createOrUpdateHabitCompletion ::
  "InsertHabitCompletion \<Rightarrow> MemStorage \<Rightarrow> HabitCompletion \<times> MemStorage" where
  "mem_createOrUpdateHabitCompletion completion st =
     (let key = (ic_habitId completion, ic_date completion);
          flag = (case ic_completed completion of None \<Rightarrow> False | Some b \<Rightarrow> b)
      in case map_of (habitCompletions st) key of
           Some existing \<Rightarrow>
             let updated = existing\<lparr> c_completed := flag \<rparr>
             in (updated, st\<lparr> habitCompletions := AList.update key updated (habitCompletions st) \<rparr>)
         | None \<Rightarrow>
             let newCompletion = \<lparr> c_id = currentCompletionId st, c_habitId = ic_habitId completion,
                    c_date = ic_date completion, c_completed = flag \<rparr>
             in (newCompletion,
                 st\<lparr> habitCompletions := AList.update key newCompletion (habitCompletions st),
                     currentCompletionId := currentCompletionId st + 1 \<rparr>))"

subsection \<open>Trade reviews\<close>

definition mem_getTradeReviews :: "MemStorage \<Rightarrow> string option \<Rightarrow> string option \<Rightarrow> TradeReview list" where
  "mem_getTradeReviews st startDate endDate =
     filter (\<lambda>trade. in_range startDate endDate (t_date trade)) (map snd (tradeReviews st))"

definition mem_getTradeReview :: "MemStorage \<Rightarrow> nat \<Rightarrow> TradeReview option" where
  "mem_getTradeReview st i = map_of (tradeReviews st) i"

definition mem_createTradeReview :: "InsertTradeReview \<Rightarrow> MemStorage \<Rightarrow> TradeReview \<times> MemStorage" where
  "mem_createTradeReview review st =
     (let tradeReview = \<lparr> t_id = currentTradeId st, t_date = it_date review,
            t_pnl = (if truthy (it_pnl review) then it_pnl review else None),
            t_emotionalState =
              (if truthy (it_emotionalState review) then it_emotionalState review else None) \<rparr>
      in (tradeReview, st\<lparr> tradeReviews := AList.update (t_id tradeReview) tradeReview (tradeReviews st),
                            currentTradeId := currentTradeId st + 1 \<rparr>))"

definition apply_trade_updates :: "TradeReview \<Rightarrow> PartialInsertTradeReview \<Rightarrow> TradeReview" where
  "apply_trade_updates existing review =
     existing\<lparr> t_date := (case pt_date review of None \<Rightarrow> t_date existing | Some d \<Rightarrow> d),
               t_pnl := (case pt_pnl review of None \<Rightarrow> t_pnl existing | Some p \<Rightarrow> p),
               t_emotionalState :=
                 (case pt_emotionalState review of None \<Rightarrow> t_emotionalState existing | Some e \<Rightarrow> e) \<rparr>"

definition mem_updateTradeReview ::
  "nat \<Rightarrow> PartialInsertTradeReview \<Rightarrow> MemStorage \<Rightarrow> TradeReview option \<times> MemStorage" where
  "mem_updateTradeReview i review st =
     (case map_of (tradeReviews st) i of
        None \<Rightarrow> (None, st)
      | Some existing \<Rightarrow>
          let updated = apply_trade_updates existing review
          in (Some updated, st\<lparr> tradeReviews := AList.update i updated (tradeReviews st) \<rparr>))"

text \<open>\<^verbatim>\<open>Map.prototype.delete\<close> answers whether the key was present.\<close>

definition mem_deleteTradeReview :: "nat \<Rightarrow> MemStorage \<Rightarrow> bool \<times> MemStorage" where
  "mem_deleteTradeReview i st =
     (map_of (tradeReviews st) i \<noteq> None, st\<lparr> tradeReviews := AList.delete i (tradeReviews st) \<rparr>)"

text \<open>The body of \<^verbatim>\<open>MemStorage.getTradingStats\<close> after the trades of the range are fetched.\<close>

definition mem_stats_of :: "TradeReview list \<Rightarrow> TradingStats" where
  "mem_stats_of trades =
     (if length trades = 0 then no_trades
      else
        let tradesWithPnL = filter (\<lambda>t. truthy (t_pnl t) \<and> \<not> js_isNaN (pnl_value t)) trades;
            winningTrades = filter (\<lambda>t. js_gt (pnl_value t) (Num 0)) tradesWithPnL;
            losingTrades = filter (\<lambda>t. js_lt (pnl_value t) (Num 0)) tradesWithPnL;
            totalPnL' = sum_pnl tradesWithPnL;
            winRate' = (if length tradesWithPnL > 0
                        then js_mul (js_div (js_of_nat (length winningTrades)) (js_of_nat (length tradesWithPnL))) (Num 100)
                        else Num 0);
            totalWins = sum_pnl winningTrades;
            totalLosses = js_abs (sum_pnl losingTrades);
            avgWin' = (if length winningTrades > 0 then js_div totalWins (js_of_nat (length winningTrades)) else Num 0);
            avgLoss' = (if length losingTrades > 0 then js_div totalLosses (js_of_nat (length losingTrades)) else Num 0);
            profitFactor' = (if js_gt totalLosses (Num 0) then js_div totalWins totalLosses
                             else if js_gt totalWins (Num 0) then Num 999 else Num 0)
        in \<lparr> totalTrades = length trades,
             winRate = js_round winRate',
             totalPnL = round2 totalPnL',
             avgWin = round2 avgWin',
             avgLoss = round2 avgLoss',
             profitFactor = round2 profitFactor',
             emotionalStates = foldl count_state [] trades \<rparr>)"

definition mem_getTradingStats :: "MemStorage \<Rightarrow> string \<Rightarrow> string \<Rightarrow> TradingStats" where
  "mem_getTradingStats st startDate endDate =
     mem_stats_of (mem_getTradeReviews st (Some startDate) (Some endDate))"

subsection \<open>Analytics\<close>

text \<open>
  \<^verbatim>\<open>xs.sort((a, b) => b.date.localeCompare(a.date))\<close>: a stable sort, latest date first.
  Dates are compared as the range filters compare them.
\<close>

fun insert_desc :: "('a \<Rightarrow> string) \<Rightarrow> 'a \<Rightarrow> 'a list \<Rightarrow> 'a list" where
  "insert_desc f c [] = [c]"
| "insert_desc f c (x # xs) = (if f c < f x then x # insert_desc f c xs else c # x # xs)"

definition sort_desc :: "('a \<Rightarrow> string) \<Rightarrow> 'a list \<Rightarrow> 'a list" where
  "sort_desc f xs = foldr (insert_desc f) xs []"

text \<open>
  The streak loop of \<^verbatim>\<open>MemStorage.getHabitsWithStats\<close>; the first argument counts the
  iterations that are left of the 365.
\<close>

fun mem_streak_loop :: "timezone \<Rightarrow> nat \<Rightarrow> HabitCompletion list \<Rightarrow> int \<Rightarrow> nat \<Rightarrow> nat" where
  "mem_streak_loop z 0 sortedCompletions checkDate streak = streak"
| "mem_streak_loop z (Suc n) sortedCompletions checkDate streak =
     (case find (\<lambda>c. c_date c = toISODate checkDate) sortedCompletions of
        None \<Rightarrow> streak
      | Some completion \<Rightarrow>
          if c_completed completion
          then mem_streak_loop z n sortedCompletions (addDays z checkDate (- 1)) (streak + 1)
          else streak)"

text \<open>
  The filter for the completions of the month calls \<^verbatim>\<open>toISOString()\<close> on
  \<^verbatim>\<open>startOfMonth\<close> for every record it tests and on \<^verbatim>\<open>endOfMonth\<close> for every record that is
  not before the start; \<^verbatim>\<open>toISOString()\<close> of an invalid date throws.
\<close>

definition monthly_filter ::
  "int option \<Rightarrow> int option \<Rightarrow> HabitCompletion list \<Rightarrow> error + HabitCompletion list" where
  "monthly_filter startOfMonth endOfMonth completions =
     (case startOfMonth of
        None \<Rightarrow> if completions = [] then Inr [] else Inl RangeError
      | Some s \<Rightarrow>
          (case endOfMonth of
             None \<Rightarrow>
               if list_ex (\<lambda>c. c_date c \<ge> toISODate s) completions then Inl RangeError else Inr []
           | Some e \<Rightarrow>
               Inr (filter (\<lambda>c. c_date c \<ge> toISODate s \<and> c_date c \<le> toISODate e \<and> c_completed c)
                      completions)))"

definition mem_habit_stats ::
  "timezone \<Rightarrow> MemStorage \<Rightarrow> string \<Rightarrow> int \<Rightarrow> Habit \<Rightarrow> error + HabitWithStats" where
  "mem_habit_stats z st date today habit =
     (let startOfMonth = newDate z (getFullYear z today) (getMonth z today) 1;
          endOfMonth = newDate z (getFullYear z today) (getMonth z today + 1) 0;
          completions = mem_getHabitCompletions st (h_id habit) None None
      in case monthly_filter startOfMonth endOfMonth completions of
           Inl e \<Rightarrow> Inl e
         | Inr monthly \<Rightarrow>
             let today_done = list_ex (\<lambda>c. c_date c = date \<and> c_completed c) completions;
                 streak = mem_streak_loop z 365 (sort_desc c_date completions) today 0;
                 totalDays = (case endOfMonth of
                                None \<Rightarrow> NaN
                              | Some e \<Rightarrow> Num (of_int (getDate z e)));
                 rate = (if js_gt totalDays (Num 0)
                         then js_mul (js_div (js_of_nat (length monthly)) totalDays) (Num 100)
                         else Num 0)
             in Inr \<lparr> hs_habit = habit, currentStreak = streak, completionRate = js_round rate,
                      completedToday = today_done, monthlyCompletions = length monthly,
                      totalDaysThisMonth = totalDays \<rparr>)"

text \<open>\<^verbatim>\<open>Promise.all\<close>: the results of all, or the first rejection.\<close>

fun promise_all :: "(error + 'a) list \<Rightarrow> error + 'a list" where
  "promise_all [] = Inr []"
| "promise_all (Inl e # rs) = Inl e"
| "promise_all (Inr x # rs) = (case promise_all rs of Inl e \<Rightarrow> Inl e | Inr xs \<Rightarrow> Inr (x # xs))"

text \<open>
  With a date string that \<^verbatim>\<open>Date\<close> does not read, every calendar field of \<^verbatim>\<open>today\<close> is NaN, both
  bounds of the month are invalid, and for each habit either the filter throws or
  \<^verbatim>\<open>checkDate.toISOString()\<close> does in the first iteration of the streak loop.
\<close>

definition mem_getHabitsWithStats :: "timezone \<Rightarrow> MemStorage \<Rightarrow> string \<Rightarrow> error + HabitWithStats list" where
  "mem_getHabitsWithStats z st date =
     (case parseDate date of
        None \<Rightarrow> if mem_getHabits st = [] then Inr [] else Inl RangeError
      | Some today \<Rightarrow> promise_all (map (mem_habit_stats z st date today) (mem_getHabits st)))"

text \<open>The inner loop of the two per-day scans: the habits with a completed record that day.\<close>

definition mem_completed :: "MemStorage \<Rightarrow> string \<Rightarrow> Habit \<Rightarrow> bool" where
  "mem_completed st dateStr habit =
     (case mem_getHabitCompletion st (h_id habit) dateStr of
        None \<Rightarrow> False
      | Some completion \<Rightarrow> c_completed completion)"

definition count_completed :: "(Habit \<Rightarrow> bool) \<Rightarrow> Habit list \<Rightarrow> nat" where
  "count_completed done_on hs = foldl (\<lambda>n habit. if done_on habit then n + 1 else n) 0 hs"

definition day_rate :: "nat \<Rightarrow> nat \<Rightarrow> jsnum" where
  "day_rate completedHabits totalHabits =
     js_round (if totalHabits > 0
               then js_mul (js_div (js_of_nat completedHabits) (js_of_nat totalHabits)) (Num 100)
               else Num 0)"

text \<open>
  \<^verbatim>\<open>for (let d = new Date(start); d <= end; d.setDate(d.getDate() + 1))\<close>: the values of \<open>d\<close>
  at which the body runs. The step moves the local date and the body prints the UTC date.
  A comparison with an invalid date is false, so then the body never runs.
\<close>

function date_loop :: "timezone \<Rightarrow> int \<Rightarrow> int \<Rightarrow> int list" where
  "date_loop z d e = (if d \<le> e then d # date_loop z (addDays z d 1) e else [])"
  by pat_completeness auto
termination
proof (relation "measure (\<lambda>(z, d, e). nat (e + 1 - d))")
  fix z :: timezone and d e :: int
  assume "d \<le> e"
  moreover have "d < addDays z d 1"
    using Rep_timezone[of z]
    by (auto simp: zone_ok_def addDays_def LocalTime_def UTC_def LocalTZA_def dest!: spec[of _ d])
  ultimately show "((z, addDays z d 1, e), (z, d, e)) \<in> measure (\<lambda>(z, d, e). nat (e + 1 - d))"
    by simp
qed simp

declare date_loop.simps [simp del]

definition date_range :: "timezone \<Rightarrow> string \<Rightarrow> string \<Rightarrow> int list" where
  "date_range z startDate endDate =
     (case parseDate startDate of
        None \<Rightarrow> []
      | Some start \<Rightarrow>
          (case parseDate endDate of None \<Rightarrow> [] | Some end' \<Rightarrow> date_loop z start end'))"

definition mem_getWeeklyProgress :: "timezone \<Rightarrow> MemStorage \<Rightarrow> string \<Rightarrow> string \<Rightarrow> DayProgress list" where
  "mem_getWeeklyProgress z st startDate endDate =
     (let hs = mem_getHabits st
      in map (\<lambda>d. let dateStr = toISODate d;
                       totalHabits = length hs;
                       completedHabits = count_completed (mem_completed st dateStr) hs
                   in \<lparr> p_date = dateStr, p_completionRate = day_rate completedHabits totalHabits \<rparr>)
             (date_range z startDate endDate))"

text \<open>
  The day loop of \<^verbatim>\<open>getMonthlyStats\<close> carries \<^verbatim>\<open>totalCompletions\<close>, \<^verbatim>\<open>totalPossible\<close> and
  \<^verbatim>\<open>perfectDays\<close>; the scan for the best streak carries \<^verbatim>\<open>currentStreak\<close> and \<^verbatim>\<open>bestStreak\<close>.
\<close>

definition month_step :: "(string \<Rightarrow> Habit \<Rightarrow> bool) \<Rightarrow> Habit list \<Rightarrow> nat \<times> nat \<times> nat \<Rightarrow> string \<Rightarrow> nat \<times> nat \<times> nat" where
  "month_step done_on hs acc dateStr =
     (case acc of (totalCompletions, totalPossible, perfectDays) \<Rightarrow>
        let dayCompletions = count_completed (done_on dateStr) hs
        in (totalCompletions + dayCompletions, totalPossible + length hs,
            if dayCompletions = length hs \<and> length hs > 0 then perfectDays + 1 else perfectDays))"

definition streak_step :: "nat \<times> nat \<Rightarrow> DayProgress \<Rightarrow> nat \<times> nat" where
  "streak_step acc day =
     (case acc of (streak, best) \<Rightarrow>
        if p_completionRate day = Num 100 then (streak + 1, max best (streak + 1)) else (0, best))"

text \<open>
  When \<^verbatim>\<open>startOfMonth\<close> or \<^verbatim>\<open>endOfMonth\<close> is invalid the day loop does not run and
  \<^verbatim>\<open>toISOString()\<close> throws where the arguments of \<^verbatim>\<open>getWeeklyProgress\<close> are built.
\<close>

definition mem_getMonthlyStats :: "timezone \<Rightarrow> MemStorage \<Rightarrow> int \<Rightarrow> int \<Rightarrow> error + MonthlyStats" where
  "mem_getMonthlyStats z st year month =
     (let hs = mem_getHabits st
      in case newDate z year (month - 1) 1 of
           None \<Rightarrow> Inl RangeError
         | Some startOfMonth \<Rightarrow>
             (case newDate z year month 0 of
                None \<Rightarrow> Inl RangeError
              | Some endOfMonth \<Rightarrow>
                  let (totalCompletions, totalPossible, perfectDays) =
                         foldl (month_step (mem_completed st) hs) (0, 0, 0)
                           (map toISODate (date_loop z startOfMonth endOfMonth));
                      weeklyProgress = mem_getWeeklyProgress z st (toISODate startOfMonth)
                                         (toISODate endOfMonth);
                      (streak, best) = foldl streak_step (0, 0) weeklyProgress;
                      rate = (if totalPossible > 0
                              then js_mul (js_div (js_of_nat totalCompletions) (js_of_nat totalPossible))
                                     (Num 100)
                              else Num 0)
                  in Inr \<lparr> ms_bestStreak = best, ms_totalHabits = length hs,
                           ms_completionRate = js_round rate, ms_perfectDays = perfectDays \<rparr>))"

section \<open>DatabaseStorage\<close>

text \<open>
  The database is its tables, each the list of its rows. A \<^verbatim>\<open>select\<close> with a \<^verbatim>\<open>where\<close> clause
  keeps the rows that match, \<^verbatim>\<open>const [row] = await ...\<close> takes the first of them, an
  \<^verbatim>\<open>update\<close> rewrites and a \<^verbatim>\<open>delete\<close> drops every row that matches, and \<^verbatim>\<open>rowCount\<close> is their
  number. Text columns are compared as the in-memory store compares its strings.
\<close>

record Database =
  db_habits :: "Habit list"
  db_habitCompletions :: "HabitCompletion list"
  db_tradeReviews :: "TradeReview list"

definition db_getHabits :: "Database \<Rightarrow> Habit list" where
  "db_getHabits db = sort_key h_name (filter h_isActive (db_habits db))"

definition db_getHabit :: "Database \<Rightarrow> nat \<Rightarrow> Habit option" where
  "db_getHabit db i = find (\<lambda>h. h_id h = i) (db_habits db)"

definition db_deleteHabit :: "nat \<Rightarrow> Database \<Rightarrow> bool \<times> Database" where
  "db_deleteHabit i db =
     (length (filter (\<lambda>h. h_id h = i) (db_habits db)) > 0,
      db\<lparr> db_habits := map (\<lambda>h. if h_id h = i then h\<lparr> h_isActive := False \<rparr> else h) (db_habits db) \<rparr>)"

text \<open>
  The bounds of the two list queries are applied together or not at all
  (\<^verbatim>\<open>if (startDate && endDate)\<close>).
\<close>

definition db_in_range :: "string option \<Rightarrow> string option \<Rightarrow> string \<Rightarrow> bool" where
  "db_in_range startDate endDate d =
     (if truthy startDate \<and> truthy endDate then the startDate \<le> d \<and> d \<le> the endDate else True)"

definition db_getHabitCompletions ::
  "Database \<Rightarrow> nat \<Rightarrow> string option \<Rightarrow> string option \<Rightarrow> HabitCompletion list" where
  "db_getHabitCompletions db habitId startDate endDate =
     sort_key c_date
       (filter (\<lambda>c. c_habitId c = habitId \<and> db_in_range startDate endDate (c_date c))
          (db_habitCompletions db))"

definition db_getHabitCompletion :: "Database \<Rightarrow> nat \<Rightarrow> string \<Rightarrow> HabitCompletion option" where
  "db_getHabitCompletion db habitId date =
     find (\<lambda>c. c_habitId c = habitId \<and> c_date c = date) (db_habitCompletions db)"

definition db_getTradeReviews :: "Database \<Rightarrow> string option \<Rightarrow> string option \<Rightarrow> TradeReview list" where
  "db_getTradeReviews db startDate endDate =
     sort_desc t_date
       (filter (\<lambda>t. db_in_range startDate endDate (t_date t)) (db_tradeReviews db))"

definition db_getTradeReview :: "Database \<Rightarrow> nat \<Rightarrow> TradeReview option" where
  "db_getTradeReview db i = find (\<lambda>t. t_id t = i) (db_tradeReviews db)"

definition db_deleteTradeReview :: "nat \<Rightarrow> Database \<Rightarrow> bool \<times> Database" where
  "db_deleteTradeReview i db =
     (length (filter (\<lambda>t. t_id t = i) (db_tradeReviews db)) > 0,
      db\<lparr> db_tradeReviews := filter (\<lambda>t. t_id t \<noteq> i) (db_tradeReviews db) \<rparr>)"

subsection \<open>Analytics\<close>

text \<open>
  The \<^verbatim>\<open>while (checkDate >= new Date(monthStart))\<close> loop of
  \<^verbatim>\<open>DatabaseStorage.getHabitsWithStats\<close>; \<open>completionsMap\<close> is the \<^verbatim>\<open>Map\<close> from the dates of the
  month's records to their flags.
\<close>

function db_streak_loop ::
  "timezone \<Rightarrow> (string \<Rightarrow> bool option) \<Rightarrow> int \<Rightarrow> int \<Rightarrow> nat \<Rightarrow> nat" where
  "db_streak_loop z completionsMap monthStart checkDate streak =
     (if checkDate \<ge> monthStart then
        (if completionsMap (toISODate checkDate) = Some True
         then db_streak_loop z completionsMap monthStart (addDays z checkDate (- 1)) (streak + 1)
         else streak)
      else streak)"
  by pat_completeness auto
termination
proof (relation "measure (\<lambda>(z, m, s, c, k). nat (c + 1 - s))")
  fix z :: timezone and m :: "string \<Rightarrow> bool option" and s c :: int and k :: nat
  assume "s \<le> c"
  moreover have "addDays z c (- 1) < c"
    using Rep_timezone[of z]
    by (auto simp: zone_ok_def addDays_def LocalTime_def UTC_def LocalTZA_def dest!: spec[of _ c])
  ultimately show "((z, m, s, addDays z c (- 1), k + 1), (z, m, s, c, k))
      \<in> measure (\<lambda>(z, m, s, c, k). nat (c + 1 - s))"
    by simp
qed simp

declare db_streak_loop.simps [simp del]

text \<open>\<^verbatim>\<open>new Map(xs.map(c => [c.date, c.completed]))\<close>: a later entry replaces an earlier one.\<close>

definition completions_map :: "HabitCompletion list \<Rightarrow> string \<Rightarrow> bool option" where
  "completions_map cs = map_of (rev (map (\<lambda>c. (c_date c, c_completed c)) cs))"

definition db_completed :: "Database \<Rightarrow> string \<Rightarrow> Habit \<Rightarrow> bool" where
  "db_completed db dateStr habit =
     (case db_getHabitCompletion db (h_id habit) dateStr of
        None \<Rightarrow> False
      | Some completion \<Rightarrow> c_completed completion)"

definition pad2 :: "int \<Rightarrow> string" where
  "pad2 n = padStart 2 CHR ''0'' (js_String n)"

text \<open>\<^verbatim>\<open>`${year}-${String(month).padStart(2, '0')}-${String(day).padStart(2, '0')}`\<close>\<close>

definition db_dateStr :: "int \<Rightarrow> int \<Rightarrow> int \<Rightarrow> string" where
  "db_dateStr year month day = js_String year @ ''-'' @ pad2 month @ ''-'' @ pad2 day"

text \<open>\<^verbatim>\<open>String(n)\<close> for a number that may be NaN.\<close>

definition num_String :: "int option \<Rightarrow> string" where
  "num_String n = (case n of None \<Rightarrow> ''NaN'' | Some k \<Rightarrow> js_String k)"

text \<open>
  \<^verbatim>\<open>new Date(year, monthIndex, 0).getDate()\<close>, the number of days of a month, NaN when the
  date is invalid.
\<close>

definition lastDate :: "timezone \<Rightarrow> int \<Rightarrow> int \<Rightarrow> int option" where
  "lastDate z year monthIndex = map_option (getDate z) (newDate z year monthIndex 0)"

definition db_habit_stats :: "timezone \<Rightarrow> Database \<Rightarrow> string \<Rightarrow> Habit \<Rightarrow> HabitWithStats" where
  "db_habit_stats z db date habit =
     (case parseDate date of
        None \<Rightarrow>
          \<comment> \<open>every calendar field of an invalid date is NaN\<close>
          let today_done = db_completed db date habit;
              monthly = db_getHabitCompletions db (h_id habit) (Some ''NaN-NaN-01'') (Some ''NaN-NaN-NaN'');
              completedDays = length (filter c_completed monthly)
          in \<lparr> hs_habit = habit, currentStreak = 0, completionRate = Num 0,
               completedToday = today_done, monthlyCompletions = completedDays,
               totalDaysThisMonth = NaN \<rparr>
      | Some today \<Rightarrow>
          let currentMonth = getMonth z today;
              currentYear = getFullYear z today;
              daysInMonth = lastDate z currentYear (currentMonth + 1);
              today_done = db_completed db date habit;
              monthStart = db_dateStr currentYear (currentMonth + 1) 1;
              monthEnd = js_String currentYear @ ''-'' @ pad2 (currentMonth + 1) @ ''-'' @
                         padStart 2 CHR ''0'' (num_String daysInMonth);
              monthly = db_getHabitCompletions db (h_id habit) (Some monthStart) (Some monthEnd);
              completedDays = length (filter c_completed monthly);
              rate = (case daysInMonth of
                        None \<Rightarrow> Num 0
                      | Some n \<Rightarrow>
                          if n > 0
                          then js_round (js_mul (js_div (js_of_nat completedDays) (Num (of_int n))) (Num 100))
                          else Num 0);
              streak = (case parseDate monthStart of
                          None \<Rightarrow> 0
                        | Some monthStartTime \<Rightarrow> db_streak_loop z (completions_map monthly) monthStartTime today 0)
          in \<lparr> hs_habit = habit, currentStreak = streak, completionRate = rate,
               completedToday = today_done, monthlyCompletions = completedDays,
               totalDaysThisMonth = (case daysInMonth of None \<Rightarrow> NaN | Some n \<Rightarrow> Num (of_int n)) \<rparr>)"

definition db_getHabitsWithStats :: "timezone \<Rightarrow> Database \<Rightarrow> string \<Rightarrow> HabitWithStats list" where
  "db_getHabitsWithStats z db date = map (db_habit_stats z db date) (db_getHabits db)"

definition db_getWeeklyProgress :: "timezone \<Rightarrow> Database \<Rightarrow> string \<Rightarrow> string \<Rightarrow> DayProgress list" where
  "db_getWeeklyProgress z db startDate endDate =
     (let allHabits = db_getHabits db
      in map (\<lambda>d. let dateStr = toISODate d;
                       totalCompletions = count_completed (db_completed db dateStr) allHabits
                   in \<lparr> p_date = dateStr,
                        p_completionRate = day_rate totalCompletions (length allHabits) \<rparr>)
             (date_range z startDate endDate))"

text \<open>
  \<^verbatim>\<open>DatabaseStorage.getMonthlyStats\<close> builds each date string from the day of the month and
  never assigns \<^verbatim>\<open>bestStreak\<close> after its initialisation.
\<close>

definition db_getMonthlyStats :: "timezone \<Rightarrow> Database \<Rightarrow> int \<Rightarrow> int \<Rightarrow> MonthlyStats" where
  "db_getMonthlyStats z db year month =
     (let allHabits = db_getHabits db;
          daysInMonth = lastDate z year month;
          days = (case daysInMonth of None \<Rightarrow> [] | Some n \<Rightarrow> [1..n]);
          (totalCompletions, possible, perfectDays) =
             foldl (month_step (db_completed db) allHabits) (0, 0, 0)
               (map (db_dateStr year month) days);
          rate = (case daysInMonth of
                    None \<Rightarrow> Num 0
                  | Some n \<Rightarrow>
                      let totalPossible = int (length allHabits) * n
                      in if totalPossible > 0
                         then js_round (js_mul (js_div (js_of_nat totalCompletions)
                                                  (Num (of_int totalPossible))) (Num 100))
                         else Num 0)
      in \<lparr> ms_bestStreak = 0, ms_totalHabits = length allHabits,
           ms_completionRate = rate, ms_perfectDays = perfectDays \<rparr>)"

text \<open>
  The \<^verbatim>\<open>forEach\<close> of \<^verbatim>\<open>DatabaseStorage.getTradingStats\<close>: one step per trade over the running
  sums \<^verbatim>\<open>wins\<close>, \<^verbatim>\<open>totalPnL\<close>, \<^verbatim>\<open>totalWins\<close>, \<^verbatim>\<open>totalLosses\<close>, \<^verbatim>\<open>winCount\<close> and \<^verbatim>\<open>lossCount\<close>.
\<close>

record db_acc =
  a_wins :: nat
  a_totalPnL :: jsnum
  a_totalWins :: jsnum
  a_totalLosses :: jsnum
  a_winCount :: nat
  a_lossCount :: nat
  a_emotionalStates :: "(string \<times> nat) list"

definition db_trade_step :: "db_acc \<Rightarrow> TradeReview \<Rightarrow> db_acc" where
  "db_trade_step acc trade =
     (let acc1 =
        (if truthy (t_pnl trade) then
           let pnl = pnl_value trade;
               acc0 = acc\<lparr> a_totalPnL := js_add (a_totalPnL acc) pnl \<rparr>
           in if js_gt pnl (Num 0)
              then acc0\<lparr> a_wins := a_wins acc0 + 1,
                        a_totalWins := js_add (a_totalWins acc0) pnl,
                        a_winCount := a_winCount acc0 + 1 \<rparr>
              else if js_lt pnl (Num 0)
              then acc0\<lparr> a_totalLosses := js_add (a_totalLosses acc0) (js_abs pnl),
                        a_lossCount := a_lossCount acc0 + 1 \<rparr>
              else acc0
         else acc)
      in acc1\<lparr> a_emotionalStates := count_state (a_emotionalStates acc1) trade \<rparr>)"

definition db_acc0 :: db_acc where
  "db_acc0 = \<lparr> a_wins = 0, a_totalPnL = Num 0, a_totalWins = Num 0, a_totalLosses = Num 0,
       a_winCount = 0, a_lossCount = 0, a_emotionalStates = [] \<rparr>"

definition db_stats_of :: "TradeReview list \<Rightarrow> TradingStats" where
  "db_stats_of trades =
     (if length trades = 0 then no_trades
      else
        let acc = foldl db_trade_step db_acc0 trades;
            winRate' = js_mul (js_div (js_of_nat (a_wins acc)) (js_of_nat (length trades))) (Num 100);
            avgWin' = (if a_winCount acc > 0 then js_div (a_totalWins acc) (js_of_nat (a_winCount acc)) else Num 0);
            avgLoss' = (if a_lossCount acc > 0 then js_div (a_totalLosses acc) (js_of_nat (a_lossCount acc)) else Num 0);
            profitFactor' = (if js_gt avgLoss' (Num 0) then js_div avgWin' avgLoss' else Num 0)
        in \<lparr> totalTrades = length trades,
             winRate = js_round winRate',
             totalPnL = round2 (a_totalPnL acc),
             avgWin = round2 avgWin',
             avgLoss = round2 avgLoss',
             profitFactor = round2 profitFactor',
             emotionalStates = a_emotionalStates acc \<rparr>)"

definition db_getTradingStats :: "Database \<Rightarrow> string \<Rightarrow> string \<Rightarrow> TradingStats" where
  "db_getTradingStats db startDate endDate =
     db_stats_of (db_getTradeReviews db (Some startDate) (Some endDate))"

section \<open>The vocabulary of the specification\<close>

text \<open>
  The notions the specification states its requirements with, written down once so that the
  operations above can be compared with them.
\<close>

subsection \<open>Trades\<close>

text \<open>
  A trade has a PnL when the field is present, not empty, and parses to a number; it is a
  winning trade when that number is positive and a losing trade when it is negative.
\<close>

definition has_pnl :: "TradeReview \<Rightarrow> bool" where
  "has_pnl t = (truthy (t_pnl t) \<and> \<not> js_isNaN (pnl_value t))"

definition is_win :: "TradeReview \<Rightarrow> bool" where
  "is_win t = (has_pnl t \<and> js_gt (pnl_value t) (Num 0))"

definition is_loss :: "TradeReview \<Rightarrow> bool" where
  "is_loss t = (has_pnl t \<and> js_lt (pnl_value t) (Num 0))"

definition round_half_up :: "rat \<Rightarrow> rat" where
  "round_half_up x = of_int \<lfloor>x + 1 / 2\<rfloor>"

definition spec_winRate :: "TradeReview list \<Rightarrow> jsnum" where
  "spec_winRate ts =
     (let n = length (filter has_pnl ts); w = length (filter is_win ts)
      in if n = 0 then Num 0 else Num (round_half_up (of_nat w / of_nat n * 100)))"

definition js_finite :: "jsnum \<Rightarrow> bool" where
  "js_finite x = (case x of Num r \<Rightarrow> True | _ \<Rightarrow> False)"

definition finite_pnl :: "TradeReview \<Rightarrow> bool" where
  "finite_pnl t = js_finite (pnl_value t)"

definition pnl_rat :: "TradeReview \<Rightarrow> rat" where
  "pnl_rat t = (case pnl_value t of Num r \<Rightarrow> r | _ \<Rightarrow> 0)"

definition spec_profitFactor :: "TradeReview list \<Rightarrow> jsnum" where
  "spec_profitFactor ts =
     (let wins = sum_list (map pnl_rat (filter is_win ts));
          losses = sum_list (map (\<lambda>t. \<bar>pnl_rat t\<bar>) (filter is_loss ts))
      in if filter is_loss ts = [] then (if filter is_win ts = [] then Num 0 else Num 999)
         else Num (round_half_up (wins / losses * 100) / 100))"

subsection \<open>Days\<close>

text \<open>The entry of the progress series for a day on which nothing counts as done.\<close>

definition zero_day :: "int \<Rightarrow> DayProgress" where
  "zero_day d = \<lparr> p_date = toISODate d, p_completionRate = Num 0 \<rparr>"

text \<open>
  The calendar days from a start date to an end date, both included, as day numbers, and the
  dates of a day range as the strings that name them.
\<close>

definition day_range :: "string \<Rightarrow> string \<Rightarrow> int list" where
  "day_range startDate endDate =
     (case parseDay startDate of
        None \<Rightarrow> []
      | Some a \<Rightarrow> (case parseDay endDate of None \<Rightarrow> [] | Some b \<Rightarrow> [a..b]))"

text \<open>
  A perfect day is a day on which there is at least one active habit and every active habit
  has a completed record; the days of a month are named by their date strings.
\<close>

definition perfect_day :: "(string \<Rightarrow> Habit \<Rightarrow> bool) \<Rightarrow> Habit list \<Rightarrow> string \<Rightarrow> bool" where
  "perfect_day done_on hs dateStr = (hs \<noteq> [] \<and> list_all (done_on dateStr) hs)"

definition month_dates :: "int \<Rightarrow> int \<Rightarrow> string list" where
  "month_dates year month = map (isoDate year month) [1..days_in_month year month]"

text \<open>
  The longest run of consecutive elements with a property: the greatest, over all positions
  of the list, of the number of elements from that position on that have it without a gap.
  A day has a full rate when its completion rate is 100, and \<open>progress_entry\<close> is the entry
  of the progress series for one date string.
\<close>

fun longest_run :: "('a \<Rightarrow> bool) \<Rightarrow> 'a list \<Rightarrow> nat" where
  "longest_run P [] = 0"
| "longest_run P (x # xs) = max (length (takeWhile P (x # xs))) (longest_run P xs)"

definition full_rate :: "DayProgress \<Rightarrow> bool" where
  "full_rate day = (p_completionRate day = Num 100)"

definition progress_entry :: "(string \<Rightarrow> Habit \<Rightarrow> bool) \<Rightarrow> Habit list \<Rightarrow> string \<Rightarrow> DayProgress" where
  "progress_entry done_on hs dateStr =
     \<lparr> p_date = dateStr,
       p_completionRate = day_rate (length (filter (done_on dateStr) hs)) (length hs) \<rparr>"

subsection \<open>The invariant of the completion map\<close>

text \<open>
  \<^verbatim>\<open>createOrUpdateHabitCompletion\<close> stores every record under the key made of its own habit
  id and date, so that a habit has at most one record per date.
\<close>

definition completions_keyed :: "MemStorage \<Rightarrow> bool" where
  "completions_keyed st =
     list_all (\<lambda>(k, c). k = (c_habitId c, c_date c)) (habitCompletions st)"

section \<open>Concrete stores\<close>

text \<open>
  Small stores on which the general statements below are instantiated and on which the two
  implementations are run side by side.
\<close>

definition ex_habit :: "nat \<Rightarrow> string \<Rightarrow> bool \<Rightarrow> Habit" where
  "ex_habit i n a =
     \<lparr> h_id = i, h_name = n, h_description = None, h_category = ''custom'', h_isActive = a \<rparr>"

definition ex_completion :: "nat \<Rightarrow> nat \<Rightarrow> string \<Rightarrow> bool \<Rightarrow> HabitCompletion" where
  "ex_completion i h d b = \<lparr> c_id = i, c_habitId = h, c_date = d, c_completed = b \<rparr>"

definition ex_trade :: "nat \<Rightarrow> string \<Rightarrow> string option \<Rightarrow> TradeReview" where
  "ex_trade i d p = \<lparr> t_id = i, t_date = d, t_pnl = p, t_emotionalState = None \<rparr>"

text \<open>The same rows as a \<^verbatim>\<open>MemStorage\<close> and as a database.\<close>

definition mem_of :: "Habit list \<Rightarrow> HabitCompletion list \<Rightarrow> TradeReview list \<Rightarrow> MemStorage" where
  "mem_of hs cs ts =
     \<lparr> habits = map (\<lambda>h. (h_id h, h)) hs,
       habitCompletions = map (\<lambda>c. ((c_habitId c, c_date c), c)) cs,
       tradeReviews = map (\<lambda>t. (t_id t, t)) ts,
       currentHabitId = length hs + 1, currentCompletionId = length cs + 1,
       currentTradeId = length ts + 1 \<rparr>"

definition db_of :: "Habit list \<Rightarrow> HabitCompletion list \<Rightarrow> TradeReview list \<Rightarrow> Database" where
  "db_of hs cs ts = \<lparr> db_habits = hs, db_habitCompletions = cs, db_tradeReviews = ts \<rparr>"

definition only_deleted_habit :: "Habit list" where
  "only_deleted_habit = [ex_habit 1 ''Honor Stop Losses'' False]"

definition one_habit :: "Habit list" where
  "one_habit = [ex_habit 1 ''Honor Stop Losses'' True]"

definition one_completion :: "HabitCompletion list" where
  "one_completion = [ex_completion 1 1 ''2024-03-02'' True]"

text \<open>Trades of March 2024.\<close>

definition trades_one_without_pnl :: "TradeReview list" where
  "trades_one_without_pnl =
     [ex_trade 1 ''2024-03-01'' (Some ''100''), ex_trade 2 ''2024-03-02'' None]"

definition trades_only_win :: "TradeReview list" where
  "trades_only_win = [ex_trade 1 ''2024-03-01'' (Some ''100'')]"

definition trades_two_wins_one_loss :: "TradeReview list" where
  "trades_two_wins_one_loss =
     [ex_trade 1 ''2024-03-01'' (Some ''100''), ex_trade 2 ''2024-03-02'' (Some ''100''),
      ex_trade 3 ''2024-03-03'' (Some ''-50'')]"

definition trades_unparseable :: "TradeReview list" where
  "trades_unparseable =
     [ex_trade 1 ''2024-03-01'' (Some ''abc''), ex_trade 2 ''2024-03-02'' (Some ''100'')]"

text \<open>One habit, done on the first three days of March 2024 and not on the day before.\<close>

definition cs_march :: "HabitCompletion list" where
  "cs_march = [ex_completion 1 1 ''2024-03-01'' True, ex_completion 2 1 ''2024-03-02'' True,
               ex_completion 3 1 ''2024-03-03'' True, ex_completion 4 1 ''2024-02-29'' False]"

text \<open>One habit, done on the last two days of February 2024 and on the first of March.\<close>

definition cs_leap :: "HabitCompletion list" where
  "cs_leap = [ex_completion 1 1 ''2024-02-28'' True, ex_completion 2 1 ''2024-02-29'' True,
              ex_completion 3 1 ''2024-03-01'' True]"

definition the_habit :: Habit where
  "the_habit = ex_habit 1 ''Honor Stop Losses'' True"

text \<open>
  Central European time as it ran in 2024: one hour ahead of UTC, two hours from
  2024-03-31T01:00Z until 2024-10-27T01:00Z. The local hour from 02:00 that the change in
  March skips and the local hour from 02:00 that the change in October repeats are read with
  the offset before the change.
\<close>

definition berlin_utc_offset :: "int \<Rightarrow> int" where
  "berlin_utc_offset t = (if 1711846800000 \<le> t \<and> t < 1729990800000 then 7200000 else 3600000)"

definition berlin_local_offset :: "int \<Rightarrow> int" where
  "berlin_local_offset t = (if 1711854000000 \<le> t \<and> t < 1729998000000 then 7200000 else 3600000)"

definition berlin :: timezone where
  "berlin = Abs_timezone (berlin_utc_offset, berlin_local_offset)"

text \<open>Japan standard time, nine hours ahead of UTC throughout.\<close>

definition tokyo :: timezone where
  "tokyo = fixed_zone 32400000"

text \<open>Eastern standard time, five hours behind UTC.\<close>

definition eastern_standard :: timezone where
  "eastern_standard = fixed_zone (- 18000000)"


definition cs_march_end :: "HabitCompletion list" where
  "cs_march_end = [ex_completion 1 1 ''2024-03-31'' True]"

section \<open>The states of the in-memory store\<close>

text \<open>
  The constructor of \<^verbatim>\<open>MemStorage\<close> starts from empty maps and counters at 1 and creates the
  default habits. Every later state comes from a call of one of the operations that write.
\<close>

definition defaultHabits :: "InsertHabit list" where
  "defaultHabits =
     [\<lparr> ih_name = ''Avoid Overtrading'',
        ih_description = Some ''Maximum 3 trades per day, focus on quality over quantity'',
        ih_category = Some ''Risk Management'' \<rparr>,
      \<lparr> ih_name = ''Honor Stop Losses'',
        ih_description = Some ''Exit positions when stop loss is hit, no exceptions'',
        ih_category = Some ''Risk Management'' \<rparr>,
      \<lparr> ih_name = ''Wait for Setup'',
        ih_description = Some ''Only trade when all criteria are met, be patient'',
        ih_category = Some ''Emotional Control'' \<rparr>,
      \<lparr> ih_name = ''Review Trades Daily'',
        ih_description = Some ''Spend 10 minutes analyzing today's trades'',
        ih_category = Some ''Analysis & Research'' \<rparr>]"

definition initializeDefaultHabits :: "MemStorage \<Rightarrow> MemStorage" where
  "initializeDefaultHabits st = foldl (\<lambda>s habit. snd (mem_createHabit habit s)) st defaultHabits"

definition mem_new :: MemStorage where
  "mem_new = initializeDefaultHabits
     \<lparr> habits = [], habitCompletions = [], tradeReviews = [],
       currentHabitId = 1, currentCompletionId = 1, currentTradeId = 1 \<rparr>"

datatype mem_call =
    CreateHabit InsertHabit
  | UpdateHabit nat PartialInsertHabit
  | DeleteHabit nat
  | CreateOrUpdateHabitCompletion InsertHabitCompletion
  | CreateTradeReview InsertTradeReview
  | UpdateTradeReview nat PartialInsertTradeReview
  | DeleteTradeReview nat

fun mem_after :: "mem_call \<Rightarrow> MemStorage \<Rightarrow> MemStorage" where
  "mem_after (CreateHabit insertHabit) st = snd (mem_createHabit insertHabit st)"
| "mem_after (UpdateHabit i updates) st = snd (mem_updateHabit i updates st)"
| "mem_after (DeleteHabit i) st = snd (mem_deleteHabit i st)"
| "mem_after (CreateOrUpdateHabitCompletion completion) st =
     snd (mem_createOrUpdateHabitCompletion completion st)"
| "mem_after (CreateTradeReview review) st = snd (mem_createTradeReview review st)"
| "mem_after (UpdateTradeReview i review) st = snd (mem_updateTradeReview i review st)"
| "mem_after (DeleteTradeReview i) st = snd (mem_deleteTradeReview i st)"

inductive mem_reachable :: "MemStorage \<Rightarrow> bool" where
  new: "mem_reachable mem_new"
| call: "mem_reachable st \<Longrightarrow> mem_reachable (mem_after c st)"

text \<open>
  What keeps the habit map a map from each id to the habit of that id, with the next id
  not yet in use.
\<close>

definition habits_keyed :: "MemStorage \<Rightarrow> bool" where
  "habits_keyed st \<longleftrightarrow>
     distinct (map fst (habits st)) \<and>
     list_all (\<lambda>(k, h). h_id h = k \<and> k < currentHabitId st) (habits st)"

text \<open>The column \<^verbatim>\<open>habits.id\<close> identifies a row.\<close>

definition db_primary_key :: "Database \<Rightarrow> bool" where
  "db_primary_key db \<longleftrightarrow> distinct (map h_id (db_habits db))"

subsection \<open>A habit left out of the answers\<close>

text \<open>
  The store that never held the habit of an id: neither the habit nor any of its completion
  records. Then the three aggregations asked together.
\<close>

definition mem_without_habit :: "nat \<Rightarrow> MemStorage \<Rightarrow> MemStorage" where
  "mem_without_habit i st =
     st\<lparr> habits := AList.delete i (habits st),
         habitCompletions := filter (\<lambda>(k, c). c_habitId c \<noteq> i) (habitCompletions st) \<rparr>"

definition db_without_habit :: "nat \<Rightarrow> Database \<Rightarrow> Database" where
  "db_without_habit i db =
     db\<lparr> db_habits := filter (\<lambda>h. h_id h \<noteq> i) (db_habits db),
         db_habitCompletions := filter (\<lambda>c. c_habitId c \<noteq> i) (db_habitCompletions db) \<rparr>"

definition mem_aggregations ::
  "timezone \<Rightarrow> MemStorage \<Rightarrow> string \<Rightarrow> string \<Rightarrow> string \<Rightarrow> int \<Rightarrow> int \<Rightarrow>
     (error + HabitWithStats list) \<times> DayProgress list \<times> (error + MonthlyStats)" where
  "mem_aggregations z st date startDate endDate year month =
     (mem_getHabitsWithStats z st date, mem_getWeeklyProgress z st startDate endDate,
      mem_getMonthlyStats z st year month)"

definition db_aggregations ::
  "timezone \<Rightarrow> Database \<Rightarrow> string \<Rightarrow> string \<Rightarrow> string \<Rightarrow> int \<Rightarrow> int \<Rightarrow>
     HabitWithStats list \<times> DayProgress list \<times> MonthlyStats" where
  "db_aggregations z db date startDate endDate year month =
     (db_getHabitsWithStats z db date, db_getWeeklyProgress z db startDate endDate,
      db_getMonthlyStats z db year month)"

text \<open>
  A habit id is excluded when no listed habit has it and the aggregations answer what they
  answer on the store that never held the habit: its completion records count for nothing.
\<close>

definition mem_excluded ::
  "timezone \<Rightarrow> MemStorage \<Rightarrow> nat \<Rightarrow> string \<Rightarrow> string \<Rightarrow> string \<Rightarrow> int \<Rightarrow> int \<Rightarrow> bool" where
  "mem_excluded z st i date startDate endDate year month \<longleftrightarrow>
     i \<notin> set (map h_id (mem_getHabits st)) \<and>
     mem_aggregations z st date startDate endDate year month =
       mem_aggregations z (mem_without_habit i st) date startDate endDate year month"

definition db_excluded ::
  "timezone \<Rightarrow> Database \<Rightarrow> nat \<Rightarrow> string \<Rightarrow> string \<Rightarrow> string \<Rightarrow> int \<Rightarrow> int \<Rightarrow> bool" where
  "db_excluded z db i date startDate endDate year month \<longleftrightarrow>
     i \<notin> set (map h_id (db_getHabits db)) \<and>
     db_aggregations z db date startDate endDate year month =
       db_aggregations z (db_without_habit i db) date startDate endDate year month"

text \<open>
  The store after the second default habit is deleted and then marked as done on
  2024-03-01, and a table of habits with the same row and the same record.
\<close>

definition second_deleted :: MemStorage where
  "second_deleted =
     mem_after (CreateOrUpdateHabitCompletion
        \<lparr> ic_habitId = 2, ic_date = ''2024-03-01'', ic_completed = Some True \<rparr>)
       (mem_after (DeleteHabit 2) mem_new)"

definition honor_stop_losses :: Habit where
  "honor_stop_losses =
     \<lparr> h_id = 2, h_name = ''Honor Stop Losses'',
       h_description = Some ''Exit positions when stop loss is hit, no exceptions'',
       h_category = ''Risk Management'', h_isActive = False \<rparr>"

definition table_second_deleted :: Database where
  "table_second_deleted =
     db_of [ex_habit 1 ''Avoid Overtrading'' True, honor_stop_losses, ex_habit 3 ''Wait for Setup'' True]
       [ex_completion 1 2 ''2024-03-01'' True] []"

section \<open>Digit strings\<close>

lemma of_char_digit_char: "n < 10 \<Longrightarrow> (of_char (digit_char n) :: nat) = 48 + n"
  by (auto simp: digit_char_def eval_nat_numeral less_Suc_eq)

lemma is_digit_digit_char: "n < 10 \<Longrightarrow> is_digit (digit_char n)"
  by (simp add: is_digit_def of_char_digit_char)

lemma digit_val_digit_char: "n < 10 \<Longrightarrow> digit_val (digit_char n) = n"
  by (simp add: digit_val_def of_char_digit_char)

lemma digits_val_snoc: "digits_val (xs @ [c]) = 10 * digits_val xs + digit_val c"
  by (simp add: digits_val_def)

lemma list_all_digits: "list_all is_digit (digits n)"
proof (induction n rule: digits.induct)
  case (1 n)
  show ?case
  proof (cases "n < 10")
    case True
    then show ?thesis by (subst digits.simps) (simp add: is_digit_digit_char)
  next
    case False
    with 1 show ?thesis by (subst digits.simps) (simp add: is_digit_digit_char)
  qed
qed

lemma digits_val_digits: "digits_val (digits n) = n"
proof (induction n rule: digits.induct)
  case (1 n)
  show ?case
  proof (cases "n < 10")
    case True
    then show ?thesis
      by (subst digits.simps) (simp add: digits_val_def digit_val_digit_char)
  next
    case False
    with 1 have "digits_val (digits (n div 10)) = n div 10" by simp
    with False show ?thesis
      by (subst digits.simps) (simp add: digits_val_snoc digit_val_digit_char)
  qed
qed

lemma length_digits_le: "0 < k \<Longrightarrow> n < 10 ^ k \<Longrightarrow> length (digits n) \<le> k"
proof (induction n arbitrary: k rule: digits.induct)
  case (1 n)
  show ?case
  proof (cases "n < 10")
    case True
    with 1(2) show ?thesis by (subst digits.simps) simp
  next
    case False
    with 1(3) have "1 < k" by (cases "k = 1") (use 1(2) in auto)
    then obtain j where k: "k = Suc j" "0 < j" by (cases k) auto
    from 1(3) k have "n div 10 < 10 ^ j" by (simp add: less_mult_imp_div_less mult.commute)
    with 1(1)[OF False k(2)] have "length (digits (n div 10)) \<le> j" by simp
    with False k show ?thesis by (subst digits.simps) simp
  qed
qed

lemma length_digits_ge: "10 ^ k \<le> n \<Longrightarrow> k < length (digits n)"
proof (induction n arbitrary: k rule: digits.induct)
  case (1 n)
  show ?case
  proof (cases k)
    case 0
    then show ?thesis by (subst digits.simps) simp
  next
    case (Suc j)
    have "(1::nat) \<le> 10 ^ j" by simp
    moreover from 1(2) Suc have p: "10 * 10 ^ j \<le> n" by simp
    ultimately have "10 \<le> n" by linarith
    with p have n: "\<not> n < 10" "10 ^ j \<le> n div 10"
      by (simp_all add: less_eq_div_iff_mult_less_eq mult.commute)
    from 1(1)[OF n] have "j < length (digits (n div 10))" .
    with n(1) Suc show ?thesis by (subst digits.simps) simp
  qed
qed

section \<open>The calendar\<close>

text \<open>
  Reading a day number back as year, month and day and counting the days of a calendar date
  are inverse to each other, and the first of the next month comes \<open>days_in_month\<close> days
  after the first of a month.
\<close>

lemma cal_century:
  fixes doe :: int
  assumes "0 \<le> doe" "doe < 146097"
  shows "0 \<le> min 3 (doe div 36524) \<and> min 3 (doe div 36524) \<le> 3 \<and>
         0 \<le> doe - min 3 (doe div 36524) * 36524 \<and> doe - min 3 (doe div 36524) * 36524 \<le> 36524"
  using assms unfolding min_def by (simp split: if_splits) linarith

lemma cal_cycle:
  fixes doc :: int
  assumes "0 \<le> doc" "doc \<le> 36524"
  shows "0 \<le> doc div 1461 \<and> doc div 1461 \<le> 24 \<and> 0 \<le> doc mod 1461 \<and> doc mod 1461 \<le> 1460"
  using assms by linarith

lemma cal_year:
  fixes doq :: int
  assumes "0 \<le> doq" "doq \<le> 1460"
  shows "0 \<le> min 3 (doq div 365) \<and> min 3 (doq div 365) \<le> 3 \<and>
         0 \<le> doq - min 3 (doq div 365) * 365 \<and> doq - min 3 (doq div 365) * 365 \<le> 365"
  using assms unfolding min_def by (simp split: if_splits) linarith

lemma cal_yoe:
  fixes c q a :: int
  assumes "0 \<le> c" "c \<le> 3" "0 \<le> q" "q \<le> 24" "0 \<le> a" "a \<le> 3"
  shows "(100 * c + 4 * q + a) div 4 = 25 * c + q \<and> (100 * c + 4 * q + a) div 100 = c \<and>
         0 \<le> 100 * c + 4 * q + a \<and> 100 * c + 4 * q + a < 400"
  using assms by linarith


lemma cal_month:
  fixes doy :: int
  assumes "0 \<le> doy" "doy \<le> 365"
  shows "0 \<le> (5 * doy + 2) div 153 \<and> (5 * doy + 2) div 153 \<le> 11 \<and>
         1 \<le> doy - (153 * ((5 * doy + 2) div 153) + 2) div 5 + 1 \<and>
         doy - (153 * ((5 * doy + 2) div 153) + 2) div 5 + 1 \<le> 31"
  using assms by linarith

lemma cal_mp:
  fixes mp :: int
  assumes "0 \<le> mp" "mp \<le> 11"
  shows "((if mp < 10 then mp + 3 else mp - 9) + 9) mod 12 = mp \<and>
         1 \<le> (if mp < 10 then mp + 3 else mp - 9) \<and> (if mp < 10 then mp + 3 else mp - 9) \<le> 12 \<and>
         ((if mp < 10 then mp + 3 else mp - 9) \<le> 2 \<longleftrightarrow> 10 \<le> mp)"
  using assms by (simp split: if_splits)

lemma cal_era:
  fixes yoe era :: int
  assumes "0 \<le> yoe" "yoe < 400"
  shows "(yoe + era * 400) div 400 = era \<and> (yoe + era * 400) mod 400 = yoe"
  using assms by simp

lemma days_from_civil_inverse:
  assumes "civil_from_days z = (y, m, d)"
  shows "days_from_civil y m d = z \<and> 1 \<le> m \<and> m \<le> 12 \<and> 1 \<le> d \<and> d \<le> 31"
proof -
  define n where "n = z + 719468"
  define era where "era = n div 146097"
  define doe where "doe = n mod 146097"
  define c where "c = min 3 (doe div 36524)"
  define doc where "doc = doe - c * 36524"
  define q where "q = doc div 1461"
  define doq where "doq = doc mod 1461"
  define a where "a = min 3 (doq div 365)"
  define doy where "doy = doq - a * 365"
  define yoe where "yoe = 100 * c + 4 * q + a"
  define mp where "mp = (5 * doy + 2) div 153"
  define d0 where "d0 = doy - (153 * mp + 2) div 5 + 1"
  define m0 where "m0 = (if mp < 10 then mp + 3 else mp - 9)"
  define y0 where "y0 = yoe + era * 400"
  have cfd: "civil_from_days z = (if m0 \<le> 2 then y0 + 1 else y0, m0, d0)"
    unfolding civil_from_days_def Let_def y0_def m0_def d0_def mp_def yoe_def doy_def a_def
      doq_def q_def doc_def c_def doe_def era_def n_def by (rule refl)
  with assms have y: "y = (if m0 \<le> 2 then y0 + 1 else y0)" and m: "m = m0" and d: "d = d0"
    by auto
  have doe: "0 \<le> doe" "doe < 146097" by (simp_all add: doe_def)
  have n: "n = era * 146097 + doe" by (simp add: era_def doe_def)
  from cal_century[OF doe] have cb: "0 \<le> c" "c \<le> 3" "0 \<le> doc" "doc \<le> 36524"
    by (simp_all add: c_def doc_def)
  from cal_cycle[OF cb(3,4)] have qb: "0 \<le> q" "q \<le> 24" "0 \<le> doq" "doq \<le> 1460"
    by (simp_all add: q_def doq_def)
  have doc: "doc = q * 1461 + doq" by (simp add: q_def doq_def)
  from cal_year[OF qb(3,4)] have ab: "0 \<le> a" "a \<le> 3" "0 \<le> doy" "doy \<le> 365"
    by (simp_all add: a_def doy_def)
  from cal_yoe[OF cb(1,2) qb(1,2) ab(1,2)]
  have yb: "yoe div 4 = 25 * c + q" "yoe div 100 = c" "0 \<le> yoe" "yoe < 400"
    by (simp_all add: yoe_def)
  from cal_month[OF ab(3,4)] have mb: "0 \<le> mp" "mp \<le> 11" "1 \<le> d0" "d0 \<le> 31"
    by (simp_all add: mp_def d0_def)
  from cal_mp[OF mb(1,2)] have mm: "(m0 + 9) mod 12 = mp" "1 \<le> m0" "m0 \<le> 12" "m0 \<le> 2 \<longleftrightarrow> 10 \<le> mp"
    by (simp_all add: m0_def)
  have y': "(if m \<le> 2 then y - 1 else y) = y0" by (simp add: y m)
  from cal_era[OF yb(3,4)] have e: "y0 div 400 = era" "y0 mod 400 = yoe"
    by (simp_all add: y0_def)
  have "days_from_civil y m d = era * 146097 + (yoe * 365 + yoe div 4 - yoe div 100 + ((153 * mp + 2) div 5 + d0 - 1)) - 719468"
    unfolding days_from_civil_def Let_def y' e by (simp add: m d mm(1))
  also have "yoe * 365 + yoe div 4 - yoe div 100 + ((153 * mp + 2) div 5 + d0 - 1) = doe"
  proof -
    have "doe = c * 36524 + q * 1461 + doq" using doc by (simp add: doc_def)
    moreover have "yoe * 365 + yoe div 4 - yoe div 100 = c * 36524 + q * 1461 + a * 365"
      unfolding yb(1,2) by (simp add: yoe_def)
    moreover have "(153 * mp + 2) div 5 + d0 - 1 = doq - a * 365"
      by (simp add: d0_def doy_def)
    ultimately show ?thesis by simp
  qed
  finally have "days_from_civil y m d = z" by (simp add: n[symmetric] n_def)
  with mm mb show ?thesis by (simp add: m d)
qed

lemma cal_split_year:
  fixes yoe :: int
  assumes "0 \<le> yoe" "yoe < 400"
  shows "yoe = 100 * (yoe div 100) + 4 * ((yoe mod 100) div 4) + yoe mod 4"
        "0 \<le> yoe div 100" "yoe div 100 \<le> 3"
        "0 \<le> (yoe mod 100) div 4" "(yoe mod 100) div 4 \<le> 24"
        "0 \<le> yoe mod 4" "yoe mod 4 \<le> 3"
        "(yoe mod 100) div 4 = 24 \<and> yoe mod 4 = 3 \<longleftrightarrow> yoe mod 100 = 99"
        "yoe div 100 = 3 \<and> yoe mod 100 = 99 \<longleftrightarrow> yoe = 399"
proof -
  have m4: "yoe mod 4 = (yoe mod 100) mod 4" by (simp add: mod_mod_cancel)
  show "yoe = 100 * (yoe div 100) + 4 * ((yoe mod 100) div 4) + yoe mod 4"
    unfolding m4 by simp
  show "0 \<le> yoe div 100" "yoe div 100 \<le> 3" using assms by linarith+
  show "0 \<le> (yoe mod 100) div 4" "(yoe mod 100) div 4 \<le> 24" by linarith+
  show "0 \<le> yoe mod 4" "yoe mod 4 \<le> 3" by linarith+
  have "r div 4 = 24 \<and> r mod 4 = 3 \<longleftrightarrow> r = 99" for r :: int
  proof
    assume "r div 4 = 24 \<and> r mod 4 = 3"
    then show "r = 99" using mult_div_mod_eq[of 4 r] by simp
  next
    assume "r = 99"
    then show "r div 4 = 24 \<and> r mod 4 = 3" by simp
  qed
  then show "(yoe mod 100) div 4 = 24 \<and> yoe mod 4 = 3 \<longleftrightarrow> yoe mod 100 = 99"
    unfolding m4 .
  show "yoe div 100 = 3 \<and> yoe mod 100 = 99 \<longleftrightarrow> yoe = 399"
  proof
    assume "yoe div 100 = 3 \<and> yoe mod 100 = 99"
    then show "yoe = 399" using mult_div_mod_eq[of 100 yoe] by simp
  next
    assume "yoe = 399"
    then show "yoe div 100 = 3 \<and> yoe mod 100 = 99" by simp
  qed
qed

lemma cal_recompose:
  fixes c q a doy :: int
  assumes "0 \<le> c" "c \<le> 3" "0 \<le> q" "q \<le> 24" "0 \<le> a" "a \<le> 3" "0 \<le> doy" "doy \<le> 365"
    and "doy = 365 \<Longrightarrow> a = 3 \<and> (q = 24 \<longrightarrow> c = 3)"
  defines "doe \<equiv> c * 36524 + q * 1461 + a * 365 + doy"
  shows "0 \<le> doe" "doe < 146097" "min 3 (doe div 36524) = c"
        "(doe - c * 36524) div 1461 = q" "(doe - c * 36524) mod 1461 = a * 365 + doy"
        "min 3 ((a * 365 + doy) div 365) = a"
proof -
  show "0 \<le> doe" "doe < 146097" using assms by linarith+
  have X: "0 \<le> q * 1461 + a * 365 + doy" "q * 1461 + a * 365 + doy \<le> 36524"
    using assms by linarith+
  show "min 3 (doe div 36524) = c"
  proof (cases "q * 1461 + a * 365 + doy = 36524")
    case True
    with assms have "c = 3" by linarith
    with True show ?thesis by (simp add: doe_def)
  next
    case False
    with X have "doe div 36524 = c" unfolding doe_def by linarith
    with assms show ?thesis by simp
  qed
  have Y: "0 \<le> a * 365 + doy" "a * 365 + doy \<le> 1460" using assms by linarith+
  have "doe - c * 36524 = q * 1461 + (a * 365 + doy)" by (simp add: doe_def)
  with Y show "(doe - c * 36524) div 1461 = q" "(doe - c * 36524) mod 1461 = a * 365 + doy"
    by simp_all
  show "min 3 ((a * 365 + doy) div 365) = a"
  proof (cases "doy = 365")
    case True
    with assms have "a = 3" by simp
    with True show ?thesis by simp
  next
    case False
    with assms have "(a * 365 + doy) div 365 = a" by linarith
    with assms show ?thesis by simp
  qed
qed

lemma cal_doy:
  fixes y m d :: int
  assumes "1 \<le> m" "m \<le> 12" "1 \<le> d" "d \<le> days_in_month y m"
  defines "mp \<equiv> (m + 9) mod 12"
  defines "doy \<equiv> (153 * mp + 2) div 5 + d - 1"
  shows "0 \<le> doy \<and> doy \<le> 365 \<and> (doy = 365 \<longrightarrow> m = 2 \<and> is_leap y) \<and>
         (5 * doy + 2) div 153 = mp \<and> (if mp < 10 then mp + 3 else mp - 9) = m"
proof -
  from assms(1,2) have "m = 1 \<or> m = 2 \<or> m = 3 \<or> m = 4 \<or> m = 5 \<or> m = 6 \<or> m = 7 \<or> m = 8 \<or>
      m = 9 \<or> m = 10 \<or> m = 11 \<or> m = 12" by presburger
  then show ?thesis
    using assms(3,4) unfolding doy_def mp_def days_in_month_def
    by (elim disjE) (simp_all split: if_splits)
qed

lemma cal_pred_mod:
  fixes y k :: int
  assumes "1 < k"
  shows "(y - 1) mod k = k - 1 \<longleftrightarrow> y mod k = 0"
proof
  assume "(y - 1) mod k = k - 1"
  then have "((y - 1) mod k + 1) mod k = 0" using assms by simp
  then show "y mod k = 0" by (simp add: mod_add_left_eq)
next
  assume "y mod k = 0"
  then have "(y - 1) mod k = (0 - 1) mod k" by (metis mod_diff_left_eq)
  also have "\<dots> = k - 1" using assms by (simp add: zmod_minus1)
  finally show "(y - 1) mod k = k - 1" .
qed

lemma cal_leap:
  fixes y :: int
  assumes "is_leap y"
  shows "((y - 1) mod 400) mod 4 = 3 \<and> (((y - 1) mod 400) mod 100 \<noteq> 99 \<or> (y - 1) mod 400 = 399)"
proof -
  have a: "((y - 1) mod 400) mod 4 = (y - 1) mod 4" "((y - 1) mod 400) mod 100 = (y - 1) mod 100"
    by (simp_all add: mod_mod_cancel)
  show ?thesis
    using assms cal_pred_mod[of 4 y] cal_pred_mod[of 100 y] cal_pred_mod[of 400 y]
    unfolding a is_leap_def by auto
qed

lemma civil_from_days_inverse:
  assumes v: "1 \<le> m" "m \<le> 12" "1 \<le> d" "d \<le> days_in_month y m"
  shows "civil_from_days (days_from_civil y m d) = (y, m, d)"
proof -
  define y' where "y' = (if m \<le> 2 then y - 1 else y)"
  define era where "era = y' div 400"
  define yoe where "yoe = y' mod 400"
  define mp where "mp = (m + 9) mod 12"
  define doy where "doy = (153 * mp + 2) div 5 + d - 1"
  define c where "c = yoe div 100"
  define q where "q = (yoe mod 100) div 4"
  define a where "a = yoe mod 4"
  define doe where "doe = c * 36524 + q * 1461 + a * 365 + doy"
  define z where "z = days_from_civil y m d"
  have yb: "0 \<le> yoe" "yoe < 400" by (simp_all add: yoe_def)
  note sy = cal_split_year[OF yb, folded c_def q_def a_def]
  from cal_yoe[OF sy(2-7)] sy(1)
  have yd: "yoe div 4 = 25 * c + q" by simp
  have z: "z = era * 146097 + doe - 719468"
    unfolding z_def days_from_civil_def Let_def
    unfolding y'_def[symmetric] era_def[symmetric] yoe_def[symmetric] mp_def[symmetric]
      doy_def[symmetric] yd c_def[symmetric] doe_def
    using sy(1) by simp
  from cal_doy[OF v] have "0 \<le> doy \<and> doy \<le> 365 \<and> (doy = 365 \<longrightarrow> m = 2 \<and> is_leap y) \<and>
      (5 * doy + 2) div 153 = mp \<and> (if mp < 10 then mp + 3 else mp - 9) = m"
    unfolding doy_def mp_def .
  then have dy: "0 \<le> doy" "doy \<le> 365" "doy = 365 \<longrightarrow> m = 2 \<and> is_leap y"
    "(5 * doy + 2) div 153 = mp" "(if mp < 10 then mp + 3 else mp - 9) = m"
    by blast+
  have lp: "a = 3 \<and> (q = 24 \<longrightarrow> c = 3)" if "doy = 365"
  proof -
    from that dy(3) have "m = 2" "is_leap y" by simp_all
    then have "yoe = (y - 1) mod 400" by (simp add: yoe_def y'_def)
    with cal_leap[OF \<open>is_leap y\<close>] have "yoe mod 4 = 3" "yoe mod 100 \<noteq> 99 \<or> yoe = 399"
      by simp_all
    with sy(8,9) show ?thesis unfolding a_def[symmetric] by auto
  qed
  note rc = cal_recompose[OF sy(2-7) dy(1,2) lp, folded doe_def]
  define n0 where "n0 = z + 719468"
  define era0 where "era0 = n0 div 146097"
  define doe0 where "doe0 = n0 mod 146097"
  define c0 where "c0 = min 3 (doe0 div 36524)"
  define doc0 where "doc0 = doe0 - c0 * 36524"
  define q0 where "q0 = doc0 div 1461"
  define doq0 where "doq0 = doc0 mod 1461"
  define a0 where "a0 = min 3 (doq0 div 365)"
  define doy0 where "doy0 = doq0 - a0 * 365"
  define yoe0 where "yoe0 = 100 * c0 + 4 * q0 + a0"
  define mp0 where "mp0 = (5 * doy0 + 2) div 153"
  define d0 where "d0 = doy0 - (153 * mp0 + 2) div 5 + 1"
  define m0 where "m0 = (if mp0 < 10 then mp0 + 3 else mp0 - 9)"
  define y0 where "y0 = yoe0 + era0 * 400"
  have cfd: "civil_from_days z = (if m0 \<le> 2 then y0 + 1 else y0, m0, d0)"
    unfolding civil_from_days_def Let_def y0_def m0_def d0_def mp0_def yoe0_def doy0_def a0_def
      doq0_def q0_def doc0_def c0_def doe0_def era0_def n0_def by (rule refl)
  have n0: "n0 = doe + era * 146097" by (simp add: n0_def z)
  have e0: "era0 = era" "doe0 = doe" using rc(1,2) by (simp_all add: era0_def doe0_def n0)
  have c0: "c0 = c" by (simp add: c0_def e0 rc(3))
  have q0: "q0 = q" "doq0 = a * 365 + doy" by (simp_all add: q0_def doq0_def doc0_def e0 c0 rc(4,5))
  have a0: "a0 = a" unfolding a0_def q0 by (rule rc(6))
  have doy0: "doy0 = doy" by (simp add: doy0_def q0 a0)
  have yoe0: "yoe0 = yoe" using sy(1) by (simp add: yoe0_def c0 q0 a0)
  have mp0: "mp0 = mp" by (simp add: mp0_def doy0 dy(4))
  have d0: "d0 = d" by (simp add: d0_def doy0 mp0 doy_def)
  have m0: "m0 = m" unfolding m0_def mp0 by (rule dy(5))
  have y0: "y0 = y'" by (simp add: y0_def yoe0 e0 era_def yoe_def)
  show ?thesis unfolding z_def[symmetric] cfd m0 d0 y0 by (simp add: y'_def)
qed

lemma cal_div_pred:
  fixes k n :: int
  assumes "1 < n"
  shows "(k - 1) div n = (if k mod n = 0 then k div n - 1 else k div n)"
proof (cases "k mod n = 0")
  case True
  have "k - 1 = (n - 1) + (k div n - 1) * n"
    using True mult_div_mod_eq[of n k] by (simp add: algebra_simps)
  then have "(k - 1) div n = (k div n - 1) + (n - 1) div n"
    using assms by (metis div_mult_self1 less_irrefl_nat not_one_less_zero zero_less_one less_numeral_extra(3) less_trans)
  also have "(n - 1) div n = 0" using assms by (simp add: div_pos_pos_trivial)
  finally show ?thesis using True by simp
next
  case False
  have "0 \<le> k mod n" "k mod n < n" using assms by simp_all
  with False have r: "1 \<le> k mod n" "k mod n < n" by linarith+
  have "k - 1 = (k mod n - 1) + (k div n) * n"
    using mult_div_mod_eq[of n k] by (simp add: algebra_simps)
  then have "(k - 1) div n = k div n + (k mod n - 1) div n"
    using assms by (metis div_mult_self1 less_irrefl_nat not_one_less_zero zero_less_one less_numeral_extra(3) less_trans)
  also have "(k mod n - 1) div n = 0" using r by (simp add: div_pos_pos_trivial)
  finally show ?thesis using False by simp
qed

lemma days_before_year_alt:
  "days_before_year y = 365 * y + y div 4 - y div 100 + y div 400"
proof -
  define e where "e = y div 400"
  define r where "r = y mod 400"
  have y: "y = r + e * 400" by (simp add: e_def r_def)
  have "(r + (e * 100) * 4) div 4 = e * 100 + r div 4" "(r + (e * 4) * 100) div 100 = e * 4 + r div 100"
    by (rule div_mult_self1, simp)+
  then have "y div 4 = r div 4 + e * 100" "y div 100 = r div 100 + e * 4"
    by (simp_all add: y)
  then show ?thesis unfolding days_before_year_def e_def[symmetric] r_def[symmetric]
    by (simp add: y)
qed

lemma days_before_year_step:
  "days_before_year y - days_before_year (y - 1) = (if is_leap y then 366 else 365)"
proof -
  have m1: "y mod 100 = (y mod 400) mod 100" and m2: "y mod 4 = (y mod 100) mod 4"
    by (simp_all add: mod_mod_cancel)
  have e: "(y - 1) div 4 = (if y mod 4 = 0 then y div 4 - 1 else y div 4)"
    "(y - 1) div 100 = (if y mod 100 = 0 then y div 100 - 1 else y div 100)"
    "(y - 1) div 400 = (if y mod 400 = 0 then y div 400 - 1 else y div 400)"
    by (rule cal_div_pred, simp)+
  show ?thesis
  proof (cases "y mod 400 = 0")
    case True
    then have "y mod 100 = 0" using m1 by simp
    moreover from this have "y mod 4 = 0" using m2 by simp
    ultimately show ?thesis using True unfolding days_before_year_alt e is_leap_def by simp
  next
    case n400: False
    show ?thesis
    proof (cases "y mod 100 = 0")
      case True
      then have "y mod 4 = 0" using m2 by simp
      with True n400 show ?thesis unfolding days_before_year_alt e is_leap_def by simp
    next
      case False
      with n400 show ?thesis unfolding days_before_year_alt e is_leap_def by simp
    qed
  qed
qed

lemma days_from_civil_alt:
  "days_from_civil y m d =
     days_before_year (if m \<le> 2 then y - 1 else y) + (153 * ((m + 9) mod 12) + 2) div 5 + d - 719469"
  by (simp add: days_from_civil_def days_before_year_def Let_def)

lemma days_from_civil_next_month:
  assumes "1 \<le> m" "m \<le> 12"
  shows "days_from_civil (y + m div 12) (m mod 12 + 1) 1 = days_from_civil y m 1 + days_in_month y m"
proof -
  from assms have "m = 1 \<or> m = 2 \<or> m = 3 \<or> m = 4 \<or> m = 5 \<or> m = 6 \<or> m = 7 \<or> m = 8 \<or>
      m = 9 \<or> m = 10 \<or> m = 11 \<or> m = 12" by presburger
  then show ?thesis
    using days_before_year_step[of y]
    unfolding days_from_civil_alt days_in_month_def
    by (elim disjE) (simp_all split: if_splits)
qed

lemma days_before_year_mono: "y \<le> y' \<Longrightarrow> days_before_year y \<le> days_before_year y'"
proof (induction y' rule: int_ge_induct)
  case base
  show ?case by simp
next
  case (step i)
  from days_before_year_step[of "i + 1"] have "days_before_year i \<le> days_before_year (i + 1)"
    by (simp split: if_splits)
  with step show ?case by simp
qed

lemma days_before_year_values:
  "days_before_year (- 2) = - 731" "days_before_year (- 1) = - 366" "days_before_year 0 = 0"
  "days_before_year 9998 = 3651694" "days_before_year 9999 = 3652059"
  "days_before_year 10000 = 3652425"
  by (simp_all add: days_before_year_alt)

lemma month_offset:
  fixes m :: int
  assumes "1 \<le> m" "m \<le> 12"
  shows "0 \<le> (153 * ((m + 9) mod 12) + 2) div 5 \<and>
         (m \<le> 2 \<longrightarrow> 306 \<le> (153 * ((m + 9) mod 12) + 2) div 5 \<and> (153 * ((m + 9) mod 12) + 2) div 5 \<le> 337) \<and>
         (\<not> m \<le> 2 \<longrightarrow> (153 * ((m + 9) mod 12) + 2) div 5 \<le> 275)"
proof -
  from assms have "m = 1 \<or> m = 2 \<or> m = 3 \<or> m = 4 \<or> m = 5 \<or> m = 6 \<or> m = 7 \<or> m = 8 \<or>
      m = 9 \<or> m = 10 \<or> m = 11 \<or> m = 12" by presburger
  then show ?thesis by (elim disjE) simp_all
qed

lemma days_from_civil_bounds:
  assumes "1 \<le> m" "m \<le> 12" "1 \<le> d" "d \<le> 31"
  shows "y \<le> - 1 \<Longrightarrow> days_from_civil y m d < - 719528"
    and "10000 \<le> y \<Longrightarrow> 2932896 < days_from_civil y m d"
    and "0 \<le> y \<Longrightarrow> - 719528 \<le> days_from_civil y m d"
    and "y \<le> 9999 \<Longrightarrow> days_from_civil y m d \<le> 2932896"
proof -
  note o = month_offset[OF assms(1,2)]
  {
    assume y: "y \<le> - 1"
    show "days_from_civil y m d < - 719528"
    proof (cases "m \<le> 2")
      case True
      from y have "days_before_year (y - 1) \<le> days_before_year (- 2)"
        by (intro days_before_year_mono) simp
      with True o assms show ?thesis
        by (simp add: days_from_civil_alt days_before_year_values)
    next
      case False
      from y have "days_before_year y \<le> days_before_year (- 1)"
        by (intro days_before_year_mono) simp
      with False o assms show ?thesis
        by (simp add: days_from_civil_alt days_before_year_values)
    qed
  }
  {
    assume y: "10000 \<le> y"
    show "2932896 < days_from_civil y m d"
    proof (cases "m \<le> 2")
      case True
      from y have "days_before_year 9999 \<le> days_before_year (y - 1)"
        by (intro days_before_year_mono) simp
      with True o assms show ?thesis
        by (simp add: days_from_civil_alt days_before_year_values)
    next
      case False
      from y have "days_before_year 10000 \<le> days_before_year y"
        by (intro days_before_year_mono) simp
      with False o assms show ?thesis
        by (simp add: days_from_civil_alt days_before_year_values)
    qed
  }
  {
    assume y: "0 \<le> y"
    show "- 719528 \<le> days_from_civil y m d"
    proof (cases "m \<le> 2")
      case True
      from y have "days_before_year (- 1) \<le> days_before_year (y - 1)"
        by (intro days_before_year_mono) simp
      with True o assms show ?thesis
        by (simp add: days_from_civil_alt days_before_year_values)
    next
      case False
      from y have "days_before_year 0 \<le> days_before_year y"
        by (intro days_before_year_mono) simp
      with False o assms show ?thesis
        by (simp add: days_from_civil_alt days_before_year_values)
    qed
  }
  {
    assume y: "y \<le> 9999"
    show "days_from_civil y m d \<le> 2932896"
    proof (cases "m \<le> 2")
      case True
      from y have "days_before_year (y - 1) \<le> days_before_year 9998"
        by (intro days_before_year_mono) simp
      with True o assms show ?thesis
        by (simp add: days_from_civil_alt days_before_year_values)
    next
      case False
      from y have "days_before_year y \<le> days_before_year 9999"
        by (intro days_before_year_mono) simp
      with False o assms show ?thesis
        by (simp add: days_from_civil_alt days_before_year_values)
    qed
  }
qed

lemma year_in_range:
  assumes "- 719528 \<le> z" "z \<le> 2932896"
  shows "0 \<le> yearOfDay z \<and> yearOfDay z \<le> 9999"
proof -
  obtain y m d where c: "civil_from_days z = (y, m, d)" by (cases "civil_from_days z") auto
  from days_from_civil_inverse[OF c] have i: "days_from_civil y m d = z" "1 \<le> m" "m \<le> 12" "1 \<le> d" "d \<le> 31"
    by simp_all
  from days_from_civil_bounds(1,2)[OF i(2-5), of y] assms i(1) have "0 \<le> y \<and> y \<le> 9999"
    by linarith
  with c show ?thesis by (simp add: yearOfDay_def)
qed

section \<open>Trading statistics\<close>

lemma filter_has: "filter (\<lambda>t. truthy (t_pnl t) \<and> \<not> js_isNaN (pnl_value t)) ts = filter has_pnl ts"
  unfolding has_pnl_def ..

lemma filter_win: "filter (\<lambda>t. js_gt (pnl_value t) (Num 0)) (filter has_pnl ts) = filter is_win ts"
  by (induction ts) (auto simp: is_win_def)

lemma filter_loss: "filter (\<lambda>t. js_lt (pnl_value t) (Num 0)) (filter has_pnl ts) = filter is_loss ts"
  by (induction ts) (auto simp: is_loss_def)

lemma floor_half [simp]: "\<lfloor>(1::rat) / 2\<rfloor> = 0"
  by (simp add: floor_eq_iff)

lemma js_round_0 [simp]: "js_round (Num 0) = Num 0"
  by simp

lemma round2_0 [simp]: "round2 (Num 0) = Num 0"
  by (simp add: round2_def)

lemma mem_stats_of_alt:
  "mem_stats_of trades =
     (if trades = [] then no_trades
      else
        \<lparr> totalTrades = length trades,
          winRate = js_round (if filter has_pnl trades \<noteq> []
                        then js_mul (js_div (js_of_nat (length (filter is_win trades))) (js_of_nat (length (filter has_pnl trades)))) (Num 100)
                        else Num 0),
          totalPnL = round2 (sum_pnl (filter has_pnl trades)),
          avgWin = round2 (if filter is_win trades \<noteq> [] then js_div (sum_pnl (filter is_win trades)) (js_of_nat (length (filter is_win trades))) else Num 0),
          avgLoss = round2 (if filter is_loss trades \<noteq> [] then js_div (js_abs (sum_pnl (filter is_loss trades))) (js_of_nat (length (filter is_loss trades))) else Num 0),
          profitFactor = round2 (if js_gt (js_abs (sum_pnl (filter is_loss trades))) (Num 0)
                             then js_div (sum_pnl (filter is_win trades)) (js_abs (sum_pnl (filter is_loss trades)))
                             else if js_gt (sum_pnl (filter is_win trades)) (Num 0) then Num 999 else Num 0),
          emotionalStates = foldl count_state [] trades \<rparr>)"
  unfolding mem_stats_of_def Let_def filter_has filter_win filter_loss
  by (simp only: length_0_conv length_greater_0_conv)

lemma mem_winRate: "winRate (mem_stats_of trades) = spec_winRate trades"
proof (cases "filter has_pnl trades = []")
  case True
  then show ?thesis
    by (auto simp: mem_stats_of_alt spec_winRate_def no_trades_def)
next
  case False
  then have "trades \<noteq> []" by auto
  with False show ?thesis
    by (simp add: mem_stats_of_alt spec_winRate_def js_of_nat_def round_half_up_def)
qed

lemma js_finite_Num: "js_finite x \<Longrightarrow> x = Num (case x of Num r \<Rightarrow> r | _ \<Rightarrow> 0)"
  by (cases x) (simp_all add: js_finite_def)

lemma pnl_value_finite: "finite_pnl t \<Longrightarrow> pnl_value t = Num (pnl_rat t)"
  unfolding finite_pnl_def pnl_rat_def by (rule js_finite_Num)

lemma foldl_pnl_finite:
  "list_all finite_pnl ts \<Longrightarrow>
   foldl (\<lambda>sum t. js_add sum (pnl_value t)) (Num a) ts = Num (a + sum_list (map pnl_rat ts))"
  by (induction ts arbitrary: a) (simp_all add: pnl_value_finite add.assoc)

lemma sum_pnl_finite: "list_all finite_pnl ts \<Longrightarrow> sum_pnl ts = Num (sum_list (map pnl_rat ts))"
  unfolding sum_pnl_def using foldl_pnl_finite[of ts 0] by simp

lemma win_positive: "finite_pnl t \<Longrightarrow> is_win t \<Longrightarrow> 0 < pnl_rat t"
  by (auto simp: is_win_def js_gt_def dest!: pnl_value_finite)

lemma loss_negative: "finite_pnl t \<Longrightarrow> is_loss t \<Longrightarrow> pnl_rat t < 0"
  by (auto simp: is_loss_def dest!: pnl_value_finite)

lemma sum_wins_positive:
  "list_all finite_pnl ts \<Longrightarrow> list_all is_win ts \<Longrightarrow> ts \<noteq> [] \<Longrightarrow> 0 < sum_list (map pnl_rat ts)"
proof (induction ts)
  case Nil
  then show ?case by simp
next
  case (Cons t ts)
  then have "0 < pnl_rat t" by (simp add: win_positive)
  moreover have "0 \<le> sum_list (map pnl_rat ts)"
  proof (cases "ts = []")
    case True
    then show ?thesis by simp
  next
    case False
    with Cons show ?thesis by simp
  qed
  ultimately show ?case by simp
qed

lemma sum_losses_negative:
  "list_all finite_pnl ts \<Longrightarrow> list_all is_loss ts \<Longrightarrow>
   sum_list (map pnl_rat ts) = - sum_list (map (\<lambda>t. \<bar>pnl_rat t\<bar>) ts) \<and>
   (ts \<noteq> [] \<longrightarrow> sum_list (map pnl_rat ts) < 0)"
proof (induction ts)
  case Nil
  then show ?case by simp
next
  case (Cons t ts)
  then have "pnl_rat t < 0" by (simp add: loss_negative)
  moreover from Cons have "sum_list (map pnl_rat ts) = - sum_list (map (\<lambda>t. \<bar>pnl_rat t\<bar>) ts)"
    by simp
  moreover have "sum_list (map pnl_rat ts) \<le> 0"
  proof (cases "ts = []")
    case True
    then show ?thesis by simp
  next
    case False
    with Cons show ?thesis by simp
  qed
  ultimately show ?case by simp
qed

lemma list_all_filter_sub: "list_all P (filter Q xs) \<Longrightarrow> (\<And>x. R x \<Longrightarrow> Q x) \<Longrightarrow> list_all P (filter R xs)"
  by (induction xs) (auto split: if_splits)

lemma round2_Num: "round2 (Num x) = Num (round_half_up (x * 100) / 100)"
  by (simp add: round2_def round_half_up_def)

lemma round2_999 [simp]: "round2 (Num 999) = Num 999"
  by code_simp

lemma sum_pnl_Nil [simp]: "sum_pnl [] = Num 0"
  by (simp add: sum_pnl_def)

lemma mem_profitFactor:
  assumes fin: "list_all finite_pnl (filter has_pnl trades)"
  shows "profitFactor (mem_stats_of trades) = spec_profitFactor trades"
proof -
  have fw: "list_all finite_pnl (filter is_win trades)"
    by (rule list_all_filter_sub[OF fin]) (simp add: is_win_def)
  have fl: "list_all finite_pnl (filter is_loss trades)"
    by (rule list_all_filter_sub[OF fin]) (simp add: is_loss_def)
  have aw: "list_all is_win (filter is_win trades)" and al: "list_all is_loss (filter is_loss trades)"
    by (simp_all add: list_all_iff)
  define W where "W = sum_list (map pnl_rat (filter is_win trades))"
  define L where "L = sum_list (map (\<lambda>t. \<bar>pnl_rat t\<bar>) (filter is_loss trades))"
  have sw: "sum_pnl (filter is_win trades) = Num W"
    unfolding W_def by (rule sum_pnl_finite[OF fw])
  from sum_losses_negative[OF fl al]
  have sl: "sum_list (map pnl_rat (filter is_loss trades)) = - L"
    and lpos: "filter is_loss trades \<noteq> [] \<Longrightarrow> 0 < L"
    by (simp_all add: L_def)
  have sl': "js_abs (sum_pnl (filter is_loss trades)) = Num \<bar>L\<bar>"
    by (simp add: sum_pnl_finite[OF fl] sl)
  have wpos: "filter is_win trades \<noteq> [] \<Longrightarrow> 0 < W"
    unfolding W_def by (rule sum_wins_positive[OF fw aw])
  have w0: "filter is_win trades = [] \<Longrightarrow> W = 0" and l0: "filter is_loss trades = [] \<Longrightarrow> L = 0"
    by (simp_all add: W_def L_def)
  show ?thesis
  proof (cases "trades = []")
    case True
    then show ?thesis by (simp add: mem_stats_of_alt spec_profitFactor_def no_trades_def)
  next
    case ne: False
    show ?thesis
    proof (cases "filter is_loss trades = []")
      case True
      with ne wpos w0 l0 show ?thesis
        by (cases "filter is_win trades = []")
           (simp_all add: mem_stats_of_alt spec_profitFactor_def sw sl' js_gt_def)
    next
      case False
      with lpos have "0 < L" by simp
      with ne False show ?thesis
        by (simp add: mem_stats_of_alt spec_profitFactor_def sw sl' js_gt_def round2_Num
            W_def[symmetric] L_def[symmetric])
    qed
  qed
qed

lemma has_pnl_win: "(has_pnl t \<and> is_win t) = is_win t"
  by (auto simp: is_win_def)

lemma has_pnl_loss: "(has_pnl t \<and> is_loss t) = is_loss t"
  by (auto simp: is_loss_def)

lemma mem_stats_unparseable_ignored:
  "totalTrades (mem_stats_of ts) = length ts \<and>
   winRate (mem_stats_of ts) = winRate (mem_stats_of (filter has_pnl ts)) \<and>
   totalPnL (mem_stats_of ts) = totalPnL (mem_stats_of (filter has_pnl ts)) \<and>
   avgWin (mem_stats_of ts) = avgWin (mem_stats_of (filter has_pnl ts)) \<and>
   avgLoss (mem_stats_of ts) = avgLoss (mem_stats_of (filter has_pnl ts)) \<and>
   profitFactor (mem_stats_of ts) = profitFactor (mem_stats_of (filter has_pnl ts))"
proof (cases "filter has_pnl ts = []")
  case True
  then have "filter is_win ts = []" "filter is_loss ts = []"
    by (auto simp: filter_empty_conv is_win_def is_loss_def)
  with True show ?thesis
    by (simp add: mem_stats_of_alt no_trades_def js_gt_def)
next
  case False
  then have "ts \<noteq> []" by auto
  with False show ?thesis
    by (simp add: mem_stats_of_alt has_pnl_win has_pnl_loss)
qed

lemma round2_finite: "js_finite x \<Longrightarrow> js_finite (round2 x)"
  by (cases x) (simp_all add: js_finite_def round2_def)

lemma js_round_finite: "js_finite x \<Longrightarrow> js_finite (js_round x)"
  by (cases x) (simp_all add: js_finite_def)

lemma mem_stats_finite:
  assumes fin: "list_all finite_pnl (filter has_pnl ts)"
  shows "js_finite (winRate (mem_stats_of ts)) \<and> js_finite (totalPnL (mem_stats_of ts)) \<and>
         js_finite (avgWin (mem_stats_of ts)) \<and> js_finite (avgLoss (mem_stats_of ts)) \<and>
         js_finite (profitFactor (mem_stats_of ts))"
proof -
  have fw: "list_all finite_pnl (filter is_win ts)"
    by (rule list_all_filter_sub[OF fin]) (simp add: is_win_def)
  have fl: "list_all finite_pnl (filter is_loss ts)"
    by (rule list_all_filter_sub[OF fin]) (simp add: is_loss_def)
  have pf: "js_finite (profitFactor (mem_stats_of ts))"
    unfolding mem_profitFactor[OF fin] by (simp add: spec_profitFactor_def js_finite_def)
  have wr: "js_finite (winRate (mem_stats_of ts))"
    unfolding mem_winRate by (simp add: spec_winRate_def js_finite_def)
  have rest: "js_finite (totalPnL (mem_stats_of ts)) \<and>
         js_finite (avgWin (mem_stats_of ts)) \<and> js_finite (avgLoss (mem_stats_of ts))"
    by (simp add: mem_stats_of_alt no_trades_def sum_pnl_finite[OF fin] sum_pnl_finite[OF fw]
        sum_pnl_finite[OF fl] js_of_nat_def round2_Num js_finite_def)
  from pf wr rest show ?thesis by simp
qed

text \<open>
  Claim C1. The win rate is to be the share of winning trades among the trades of the range
  that have a PnL. \<^verbatim>\<open>DatabaseStorage.getTradingStats\<close> divides by \<^verbatim>\<open>totalTrades\<close> instead:
  with one winning trade and one trade without a PnL it answers 50 where the rate over the
  trades with a PnL is 100, which is also what \<^verbatim>\<open>MemStorage.getTradingStats\<close> answers on the
  same trades.
\<close>

theorem db_winRate_divides_by_all_trades:
  "winRate (db_getTradingStats (db_of [] [] trades_one_without_pnl) ''2024-03-01'' ''2024-03-31'') = Num 50 \<and>
   spec_winRate (db_getTradeReviews (db_of [] [] trades_one_without_pnl) (Some ''2024-03-01'') (Some ''2024-03-31'')) = Num 100 \<and>
   winRate (mem_getTradingStats (mem_of [] [] trades_one_without_pnl) ''2024-03-01'' ''2024-03-31'') = Num 100"
  by code_simp

text \<open>
  \<^verbatim>\<open>MemStorage.getTradingStats\<close> does compute the win rate over the trades with a PnL, for
  every store and every range, and answers 0 when no trade of the range has one.
\<close>

theorem mem_winRate_spec:
  "winRate (mem_getTradingStats st startDate endDate) =
     spec_winRate (mem_getTradeReviews st (Some startDate) (Some endDate))"
  by (simp add: mem_getTradingStats_def mem_winRate)

text \<open>
  Claim C2. The profit factor is to be the sum of the winning PnLs over the sum of the
  absolute losing PnLs, 999 when there are wins and no losses, 0 when there are neither.
  \<^verbatim>\<open>DatabaseStorage.getTradingStats\<close> divides the average win by the average loss and
  answers 0 whenever there is no loss: with a single winning trade it answers 0 instead of
  999, and with wins of 100 and 100 against a loss of 50 it answers 2 instead of 4.
  \<^verbatim>\<open>MemStorage.getTradingStats\<close> answers 999 and 4.
\<close>

theorem db_profitFactor_divides_averages:
  "profitFactor (db_getTradingStats (db_of [] [] trades_only_win) ''2024-03-01'' ''2024-03-31'') = Num 0 \<and>
   spec_profitFactor (db_getTradeReviews (db_of [] [] trades_only_win) (Some ''2024-03-01'') (Some ''2024-03-31'')) = Num 999 \<and>
   profitFactor (mem_getTradingStats (mem_of [] [] trades_only_win) ''2024-03-01'' ''2024-03-31'') = Num 999 \<and>
   profitFactor (db_getTradingStats (db_of [] [] trades_two_wins_one_loss) ''2024-03-01'' ''2024-03-31'') = Num 2 \<and>
   spec_profitFactor (db_getTradeReviews (db_of [] [] trades_two_wins_one_loss) (Some ''2024-03-01'') (Some ''2024-03-31'')) = Num 4 \<and>
   profitFactor (mem_getTradingStats (mem_of [] [] trades_two_wins_one_loss) ''2024-03-01'' ''2024-03-31'') = Num 4"
  by code_simp

text \<open>
  \<^verbatim>\<open>MemStorage.getTradingStats\<close> computes the profit factor as specified, and as a finite
  number, whenever the PnLs of the range that parse are finite (the string \<^verbatim>\<open>Infinity\<close>
  parses to a number that is not).
\<close>

theorem mem_profitFactor_spec:
  "list_all finite_pnl (filter has_pnl (mem_getTradeReviews st (Some startDate) (Some endDate))) \<Longrightarrow>
   profitFactor (mem_getTradingStats st startDate endDate) =
     spec_profitFactor (mem_getTradeReviews st (Some startDate) (Some endDate)) \<and>
   js_finite (profitFactor (mem_getTradingStats st startDate endDate))"
  using mem_stats_finite by (simp add: mem_getTradingStats_def mem_profitFactor)

theorem mem_profitFactor_spec_witness:
  "list_all finite_pnl (filter has_pnl (mem_getTradeReviews (mem_of [] [] trades_two_wins_one_loss)
      (Some ''2024-03-01'') (Some ''2024-03-31''))) \<and>
   profitFactor (mem_getTradingStats (mem_of [] [] trades_two_wins_one_loss) ''2024-03-01'' ''2024-03-31'') = Num 4"
proof -
  have h: "list_all finite_pnl (filter has_pnl (mem_getTradeReviews (mem_of [] [] trades_two_wins_one_loss)
      (Some ''2024-03-01'') (Some ''2024-03-31'')))" by code_simp
  have v: "spec_profitFactor (mem_getTradeReviews (mem_of [] [] trades_two_wins_one_loss)
      (Some ''2024-03-01'') (Some ''2024-03-31'')) = Num 4" by code_simp
  from mem_profitFactor_spec[OF h] h v show ?thesis by simp
qed

text \<open>
  Claim C5. A trade whose PnL does not parse is to count in \<^verbatim>\<open>totalTrades\<close> only.
  \<^verbatim>\<open>DatabaseStorage.getTradingStats\<close> tests the field for presence alone and adds the NaN
  that \<^verbatim>\<open>parseFloat\<close> returns to the running total: with the PnLs \<^verbatim>\<open>"abc"\<close> and \<^verbatim>\<open>"100"\<close> its
  \<^verbatim>\<open>totalPnL\<close> is NaN, where \<^verbatim>\<open>MemStorage.getTradingStats\<close> answers 100.
\<close>

theorem db_totalPnL_NaN_on_unparseable_pnl:
  "totalPnL (db_getTradingStats (db_of [] [] trades_unparseable) ''2024-03-01'' ''2024-03-31'') = NaN \<and>
   totalPnL (mem_getTradingStats (mem_of [] [] trades_unparseable) ''2024-03-01'' ''2024-03-31'') = Num 100 \<and>
   filter has_pnl (db_getTradeReviews (db_of [] [] trades_unparseable) (Some ''2024-03-01'') (Some ''2024-03-31''))
     = [ex_trade 2 ''2024-03-02'' (Some ''100'')]"
  by code_simp

text \<open>
  In \<^verbatim>\<open>MemStorage.getTradingStats\<close> every trade of the range counts in \<^verbatim>\<open>totalTrades\<close>, and
  each numeric result is what it would be with the trades without a parseable PnL removed.
\<close>

theorem mem_unparseable_pnl_ignored:
  "totalTrades (mem_getTradingStats st s e) = length (mem_getTradeReviews st (Some s) (Some e)) \<and>
   winRate (mem_getTradingStats st s e) = winRate (mem_stats_of (filter has_pnl (mem_getTradeReviews st (Some s) (Some e)))) \<and>
   totalPnL (mem_getTradingStats st s e) = totalPnL (mem_stats_of (filter has_pnl (mem_getTradeReviews st (Some s) (Some e)))) \<and>
   avgWin (mem_getTradingStats st s e) = avgWin (mem_stats_of (filter has_pnl (mem_getTradeReviews st (Some s) (Some e)))) \<and>
   avgLoss (mem_getTradingStats st s e) = avgLoss (mem_stats_of (filter has_pnl (mem_getTradeReviews st (Some s) (Some e)))) \<and>
   profitFactor (mem_getTradingStats st s e) = profitFactor (mem_stats_of (filter has_pnl (mem_getTradeReviews st (Some s) (Some e))))"
  unfolding mem_getTradingStats_def by (rule mem_stats_unparseable_ignored)

text \<open>
  With finite PnLs, no numeric result of \<^verbatim>\<open>MemStorage.getTradingStats\<close> is NaN or infinite.
\<close>

theorem mem_trading_stats_finite:
  "list_all finite_pnl (filter has_pnl (mem_getTradeReviews st (Some s) (Some e))) \<Longrightarrow>
   js_finite (winRate (mem_getTradingStats st s e)) \<and>
   js_finite (totalPnL (mem_getTradingStats st s e)) \<and>
   js_finite (avgWin (mem_getTradingStats st s e)) \<and>
   js_finite (avgLoss (mem_getTradingStats st s e)) \<and>
   js_finite (profitFactor (mem_getTradingStats st s e))"
  unfolding mem_getTradingStats_def by (rule mem_stats_finite)

theorem mem_trading_stats_finite_witness:
  "list_all finite_pnl (filter has_pnl (mem_getTradeReviews (mem_of [] [] trades_unparseable)
      (Some ''2024-03-01'') (Some ''2024-03-31''))) \<and>
   js_finite (totalPnL (mem_getTradingStats (mem_of [] [] trades_unparseable) ''2024-03-01'' ''2024-03-31''))"
proof -
  have h: "list_all finite_pnl (filter has_pnl (mem_getTradeReviews (mem_of [] [] trades_unparseable)
      (Some ''2024-03-01'') (Some ''2024-03-31'')))" by code_simp
  from mem_trading_stats_finite[OF h] h show ?thesis by simp
qed

section \<open>Date strings\<close>

lemma digits_val_zeros: "digits_val (replicate k CHR ''0'' @ xs) = digits_val xs"
proof -
  have "foldl (\<lambda>acc c. 10 * acc + digit_val c) 0 (replicate k CHR ''0'') = 0"
    by (induction k) (simp_all add: digit_val_def)
  then show ?thesis by (simp add: digits_val_def)
qed

lemma is_digit_zero: "is_digit CHR ''0''"
  by (simp add: is_digit_def)

lemma padded_digits:
  assumes "0 < k" "n < 10 ^ k"
  shows "length (padStart k CHR ''0'' (digits n)) = k"
    and "list_all is_digit (padStart k CHR ''0'' (digits n))"
    and "digits_val (padStart k CHR ''0'' (digits n)) = n"
proof -
  from length_digits_le[OF assms] show "length (padStart k CHR ''0'' (digits n)) = k"
    by (simp add: padStart_def)
  have "list_all is_digit (replicate j CHR ''0'')" for j
    by (induction j) (simp_all add: is_digit_zero)
  then show "list_all is_digit (padStart k CHR ''0'' (digits n))"
    by (simp add: padStart_def list_all_digits)
  show "digits_val (padStart k CHR ''0'' (digits n)) = n"
    by (simp add: padStart_def digits_val_zeros digits_val_digits)
qed

lemma parseDay_fields:
  assumes "length Y = 4" "length M = 2" "length D = 2"
    and "list_all is_digit Y" "list_all is_digit M" "list_all is_digit D"
  shows "parseDay (Y @ CHR ''-'' # M @ CHR ''-'' # D) =
     (if 1 \<le> digits_val M \<and> digits_val M \<le> 12 \<and> 1 \<le> digits_val D \<and> digits_val D \<le> 31
      then Some (days_from_civil (int (digits_val Y)) (int (digits_val M)) 1 + int (digits_val D) - 1)
      else None)"
  using assms by (simp add: parseDay_def nth_append Let_def)

lemma parseDay_isoDate:
  assumes "0 \<le> y" "y \<le> 9999" "1 \<le> m" "m \<le> 12" "1 \<le> d" "d \<le> 31"
  shows "parseDay (isoDate y m d) = Some (days_from_civil y m 1 + d - 1)"
proof -
  have y: "nat y < 10 ^ 4" and m: "nat m < 10 ^ 2" and d: "nat d < 10 ^ 2"
    using assms by simp_all
  note py = padded_digits[OF _ y, simplified] and pm = padded_digits[OF _ m, simplified]
    and pd = padded_digits[OF _ d, simplified]
  have "isoDate y m d = padStart 4 CHR ''0'' (digits (nat y)) @ CHR ''-'' #
      padStart 2 CHR ''0'' (digits (nat m)) @ CHR ''-'' # padStart 2 CHR ''0'' (digits (nat d))"
    using assms by (simp add: isoDate_def)
  also have "parseDay \<dots> = Some (days_from_civil y m 1 + d - 1)"
    using assms by (subst parseDay_fields) (auto simp: py pm pd)
  finally show ?thesis .
qed

lemma days_from_civil_day: "days_from_civil y m d = days_from_civil y m 1 + d - 1"
  by (simp add: days_from_civil_def Let_def)

lemma parseDay_isoDay:
  assumes "0 \<le> yearOfDay z" "yearOfDay z \<le> 9999"
  shows "parseDay (isoDay z) = Some z"
proof -
  obtain y m d where c: "civil_from_days z = (y, m, d)" by (cases "civil_from_days z") auto
  from days_from_civil_inverse[OF c] have i: "days_from_civil y m d = z" "1 \<le> m" "m \<le> 12" "1 \<le> d" "d \<le> 31"
    by simp_all
  from assms c have y: "0 \<le> y" "y \<le> 9999" by (simp_all add: yearOfDay_def)
  from parseDay_isoDate[OF y i(2-5)] i(1) days_from_civil_day[of y m d] c
  show ?thesis by (simp add: isoDay_def)
qed

lemma db_dateStr_iso:
  assumes "1000 \<le> y" "y \<le> 9999" "0 \<le> m" "0 \<le> d"
  shows "db_dateStr y m d = isoDate y m d"
proof -
  from assms have "10 ^ 3 \<le> nat y" by simp
  from length_digits_ge[OF this] have "padStart 4 CHR ''0'' (digits (nat y)) = digits (nat y)"
    by (simp add: padStart_def)
  with assms show ?thesis
    by (simp add: db_dateStr_def isoDate_def js_String_def pad2_def)
qed

lemma digit_val_le: "is_digit c \<Longrightarrow> digit_val c \<le> 9"
  by (auto simp: is_digit_def digit_val_def)

lemma digits_val_bound: "list_all is_digit xs \<Longrightarrow> digits_val xs < 10 ^ length xs"
proof (induction xs rule: rev_induct)
  case Nil
  then show ?case by (simp add: digits_val_def)
next
  case (snoc c xs)
  then have "digits_val xs < 10 ^ length xs" "digit_val c \<le> 9"
    by (simp_all add: digit_val_le)
  then show ?case by (simp add: digits_val_snoc)
qed

lemma parseDay_range:
  assumes "parseDay s = Some z"
  shows "- 719528 \<le> z \<and> z \<le> 2932896"
proof -
  define y where "y = int (digits_val (take 4 s))"
  define m where "m = int (digits_val (take 2 (drop 5 s)))"
  define d where "d = int (digits_val (drop 8 s))"
  from assms have f: "length s = 10" "list_all is_digit (take 4 s)"
    and md: "1 \<le> m" "m \<le> 12" "1 \<le> d" "d \<le> 31" and z: "z = days_from_civil y m 1 + d - 1"
    by (auto simp: parseDay_def Let_def y_def m_def d_def split: if_splits)
  from digits_val_bound[OF f(2)] f(1) have "0 \<le> y" "y \<le> 9999" by (simp_all add: y_def)
  with days_from_civil_bounds(3,4)[OF md, of y] z days_from_civil_day[of y m d]
  show ?thesis by simp
qed

lemma parseDay_isoDay_between:
  assumes "parseDay s = Some a" "parseDay e = Some b" "a \<le> z" "z \<le> b"
  shows "parseDay (isoDay z) = Some z"
proof -
  from parseDay_range[OF assms(1)] parseDay_range[OF assms(2)] assms(3,4)
  have "- 719528 \<le> z" "z \<le> 2932896" by simp_all
  from year_in_range[OF this] show ?thesis by (simp add: parseDay_isoDay)
qed

subsection \<open>Evaluating dates\<close>

lemma civil_eval:
  assumes "days_from_civil y m d = z" "1 \<le> m" "m \<le> 12" "1 \<le> d" "d \<le> days_in_month y m"
  shows "civil_from_days z = (y, m, d)"
  using civil_from_days_inverse[OF assms(2-5)] assms(1) by simp

lemmas calendar_eval = days_from_civil_def days_in_month_def is_leap_def Let_def

text \<open>The days around the end of February 2024.\<close>

lemma civil_2024:
  "civil_from_days 19781 = (2024, 2, 28)" "civil_from_days 19782 = (2024, 2, 29)"
  "civil_from_days 19783 = (2024, 3, 1)" "civil_from_days 19784 = (2024, 3, 2)"
  "civil_from_days 19785 = (2024, 3, 3)"
  by (rule civil_eval; simp add: calendar_eval)+

lemmas string_eval = isoDate_def padStart_def digits.simps digit_char_def
  is_digit_def digits_val_def digit_val_def js_String_def pad2_def db_dateStr_def

lemma iso_2024:
  "isoDay 19781 = ''2024-02-28''" "isoDay 19782 = ''2024-02-29''"
  "isoDay 19783 = ''2024-03-01''" "isoDay 19784 = ''2024-03-02''"
  "isoDay 19785 = ''2024-03-03''"
  by (simp_all add: isoDay_def civil_2024 string_eval)

lemma parse_2024:
  "parseDay ''2024-02-28'' = Some 19781" "parseDay ''2024-03-01'' = Some 19783"
  "parseDay ''2024-03-03'' = Some 19785"
  by (simp_all add: parseDay_def string_eval calendar_eval)

section \<open>Time zones\<close>

lemma zone_ok_Rep: "zone_ok (fst (Rep_timezone z)) (snd (Rep_timezone z))"
  using Rep_timezone[of z] by simp

lemma LocalTZA_bound: "\<bar>LocalTZA z t b\<bar> < msPerDay"
  using zone_ok_Rep[of z] by (auto simp: zone_ok_def LocalTZA_def dest!: spec[of _ t])

lemma addDays_later: "t < addDays z t 1"
  using zone_ok_Rep[of z]
  by (auto simp: zone_ok_def addDays_def LocalTime_def UTC_def LocalTZA_def dest!: spec[of _ t])

lemma addDays_earlier: "addDays z t (- 1) < t"
  using zone_ok_Rep[of z]
  by (auto simp: zone_ok_def addDays_def LocalTime_def UTC_def LocalTZA_def dest!: spec[of _ t])

lemma LocalTime_UTC: "t \<le> LocalTime z (UTC z t) \<and> LocalTime z (UTC z t) < t + msPerDay"
  using zone_ok_Rep[of z]
  by (auto simp: zone_ok_def LocalTime_def UTC_def LocalTZA_def dest!: spec[of _ t])

lemma Rep_fixed_zone: "\<bar>c\<bar> < msPerDay \<Longrightarrow> Rep_timezone (fixed_zone c) = (\<lambda>t. c, \<lambda>t. c)"
  by (simp add: fixed_zone_def Abs_timezone_inverse zone_ok_def)

lemma LocalTZA_fixed: "\<bar>c\<bar> < msPerDay \<Longrightarrow> LocalTZA (fixed_zone c) t b = c"
  by (simp add: LocalTZA_def Rep_fixed_zone)

lemma fixed_zone_time:
  assumes "\<bar>c\<bar> < msPerDay"
  shows "LocalTime (fixed_zone c) t = t + c" "UTC (fixed_zone c) t = t - c"
    "addDays (fixed_zone c) t n = t + n * msPerDay"
  using assms by (simp_all add: LocalTime_def UTC_def addDays_def LocalTZA_fixed)

lemma utc_time: "LocalTime utc t = t" "UTC utc t = t" "addDays utc t n = t + n * msPerDay"
  by (simp_all add: utc_def fixed_zone_time msPerDay_def)

lemma Rep_berlin: "Rep_timezone berlin = (berlin_utc_offset, berlin_local_offset)"
  unfolding berlin_def
  by (rule Abs_timezone_inverse)
     (simp add: zone_ok_def berlin_utc_offset_def berlin_local_offset_def msPerDay_def)

lemma berlin_time:
  "LocalTime berlin t = t + berlin_utc_offset t" "UTC berlin t = t - berlin_local_offset t"
  by (simp_all add: LocalTime_def UTC_def LocalTZA_def Rep_berlin)

subsection \<open>Days and time values\<close>

lemma Day_of_day: "0 \<le> r \<Longrightarrow> r < msPerDay \<Longrightarrow> Day (n * msPerDay + r) = n"
  by (simp add: Day_def msPerDay_def div_pos_pos_trivial)

lemma Day_midnight [simp]: "Day (n * msPerDay) = n"
  using Day_of_day[of 0 n] by (simp add: msPerDay_def)

lemma toISODate_of_day: "0 \<le> r \<Longrightarrow> r < msPerDay \<Longrightarrow> toISODate (n * msPerDay + r) = isoDay n"
  by (simp add: toISODate_def Day_of_day)

lemma toISODate_midnight [simp]: "toISODate (n * msPerDay) = isoDay n"
  by (simp add: toISODate_def)

lemma parseDate_Some: "parseDate s = Some t \<longleftrightarrow> (\<exists>n. parseDay s = Some n \<and> t = n * msPerDay)"
  by (auto simp: parseDate_def)

lemma parseDate_day: "parseDay s = Some n \<Longrightarrow> parseDate s = Some (n * msPerDay)"
  by (simp add: parseDate_def)

lemma parseDate_None: "parseDate s = None \<longleftrightarrow> parseDay s = None"
  by (simp add: parseDate_def)

lemma MakeDay_fields:
  "MakeDay (yearOfDay n) (monthOfDay n) (dateOfDay n + k) = n + k"
proof -
  obtain y m d where c: "civil_from_days n = (y, m, d)" by (cases "civil_from_days n") auto
  from days_from_civil_inverse[OF c] have i: "days_from_civil y m d = n" "1 \<le> m" "m \<le> 12"
    by simp_all
  from i(2,3) have "(m - 1) div 12 = 0" "(m - 1) mod 12 = m - 1" by simp_all
  with i(1) days_from_civil_day[of y m d] c show ?thesis
    by (simp add: MakeDay_def yearOfDay_def monthOfDay_def dateOfDay_def)
qed

lemma setDate_getDate: "setDate z t (getDate z t + n) = TimeClip (addDays z t n)"
proof -
  define lt where "lt = LocalTime z t"
  have "MakeDate (MakeDay (yearOfDay (Day lt)) (monthOfDay (Day lt)) (dateOfDay (Day lt) + n))
          (TimeWithinDay lt) = lt + n * msPerDay"
    unfolding MakeDay_fields
    by (simp add: MakeDate_def Day_def TimeWithinDay_def algebra_simps)
  then show ?thesis
    by (simp add: setDate_def getDate_def addDays_def Let_def lt_def)
qed

lemma date_loop_fixed:
  assumes "\<bar>c\<bar> < msPerDay"
  shows "date_loop (fixed_zone c) (a * msPerDay + r) (b * msPerDay + r) =
           map (\<lambda>n. n * msPerDay + r) [a..b]"
proof (induction "nat (b - a + 1)" arbitrary: a)
  case 0
  then have "b < a" by simp
  then have "\<not> a * msPerDay + r \<le> b * msPerDay + r" by (simp add: msPerDay_def)
  with \<open>b < a\<close> show ?case by (simp add: date_loop.simps[of _ "a * msPerDay + r"])
next
  case (Suc k)
  then have ab: "a \<le> b" by simp
  from Suc have "k = nat (b - (a + 1) + 1)" by simp
  from Suc(1)[OF this] have
    "date_loop (fixed_zone c) ((a + 1) * msPerDay + r) (b * msPerDay + r) =
       map (\<lambda>n. n * msPerDay + r) [a + 1..b]" .
  moreover have "a * msPerDay + r \<le> b * msPerDay + r" using ab by (simp add: msPerDay_def)
  moreover have "addDays (fixed_zone c) (a * msPerDay + r) 1 = (a + 1) * msPerDay + r"
    by (simp add: fixed_zone_time[OF assms] algebra_simps)
  ultimately show ?case
    using ab by (simp add: date_loop.simps[of _ "a * msPerDay + r"] upto_rec1[of a b])
qed

lemma date_range_fixed:
  assumes "\<bar>c\<bar> < msPerDay"
  shows "date_range (fixed_zone c) startDate endDate = map (\<lambda>n. n * msPerDay) (day_range startDate endDate)"
proof (cases "parseDay startDate")
  case None then show ?thesis by (simp add: date_range_def day_range_def parseDate_def)
next
  case (Some a)
  show ?thesis
  proof (cases "parseDay endDate")
    case None with Some show ?thesis by (simp add: date_range_def day_range_def parseDate_def)
  next
    case b: (Some b)
    from date_loop_fixed[OF assms, of a 0 b] Some b show ?thesis
      by (simp add: date_range_def day_range_def parseDate_def)
  qed
qed

lemma TimeClip_Some: "\<bar>t\<bar> \<le> 8640000000000000 \<Longrightarrow> TimeClip t = Some t"
  by (simp add: TimeClip_def)

lemma newDate_valid:
  assumes "\<bar>MakeDay (fullYear year) monthIndex day\<bar> < 99999999"
  shows "newDate z year monthIndex day = Some (UTC z (MakeDay (fullYear year) monthIndex day * msPerDay))"
proof -
  define n where "n = MakeDay (fullYear year) monthIndex day"
  have "\<bar>UTC z (n * msPerDay)\<bar> \<le> 8640000000000000"
    using LocalTZA_bound[of z "n * msPerDay" False] assms
    by (simp add: UTC_def msPerDay_def n_def abs_le_iff abs_less_iff)
  then show ?thesis by (simp add: newDate_def MakeDate_def n_def TimeClip_def)
qed

lemma getDate_local_midnight: "getDate z (UTC z (n * msPerDay)) = dateOfDay n"
  and getMonth_local_midnight: "getMonth z (UTC z (n * msPerDay)) = monthOfDay n"
  and getFullYear_local_midnight: "getFullYear z (UTC z (n * msPerDay)) = yearOfDay n"
proof -
  define r where "r = LocalTime z (UTC z (n * msPerDay)) - n * msPerDay"
  from LocalTime_UTC[of "n * msPerDay" z] have "0 \<le> r" "r < msPerDay" by (simp_all add: r_def)
  from Day_of_day[OF this, of n] have "Day (LocalTime z (UTC z (n * msPerDay))) = n"
    by (simp add: r_def)
  then show "getDate z (UTC z (n * msPerDay)) = dateOfDay n"
    "getMonth z (UTC z (n * msPerDay)) = monthOfDay n"
    "getFullYear z (UTC z (n * msPerDay)) = yearOfDay n"
    by (simp_all add: getDate_def getMonth_def getFullYear_def)
qed

section \<open>The weekly progress series\<close>

lemma day_rate_no_habits [simp]: "day_rate (count_completed f []) 0 = Num 0"
  by (simp add: day_rate_def count_completed_def)

text \<open>
  Claim C6. With no active habit, \<^verbatim>\<open>getWeeklyProgress\<close> of either store returns, for every
  start and end date and in every time zone, a completion rate of 0 in every entry of the
  series: a finite number, never NaN, and the call does not fail.
\<close>

theorem weekly_progress_without_habits:
  "(mem_getHabits st = [] \<longrightarrow>
      mem_getWeeklyProgress z st startDate endDate = map zero_day (date_range z startDate endDate)) \<and>
   (db_getHabits db = [] \<longrightarrow>
      db_getWeeklyProgress z db startDate endDate = map zero_day (date_range z startDate endDate))"
  by (simp add: mem_getWeeklyProgress_def db_getWeeklyProgress_def zero_day_def)

lemma march_first_days: "date_range utc ''2024-03-01'' ''2024-03-03'' = map (\<lambda>n. n * msPerDay) [19783..19785]"
  unfolding utc_def by (subst date_range_fixed) (simp_all add: msPerDay_def day_range_def parse_2024)

theorem weekly_progress_without_habits_witness:
  "mem_getHabits (mem_of only_deleted_habit one_completion []) = [] \<and>
   db_getHabits (db_of only_deleted_habit one_completion []) = [] \<and>
   mem_getWeeklyProgress utc (mem_of only_deleted_habit one_completion []) ''2024-03-01'' ''2024-03-03'' =
     [\<lparr> p_date = ''2024-03-01'', p_completionRate = Num 0 \<rparr>,
      \<lparr> p_date = ''2024-03-02'', p_completionRate = Num 0 \<rparr>,
      \<lparr> p_date = ''2024-03-03'', p_completionRate = Num 0 \<rparr>] \<and>
   db_getWeeklyProgress utc (db_of only_deleted_habit one_completion []) ''2024-03-01'' ''2024-03-03'' =
     [\<lparr> p_date = ''2024-03-01'', p_completionRate = Num 0 \<rparr>,
      \<lparr> p_date = ''2024-03-02'', p_completionRate = Num 0 \<rparr>,
      \<lparr> p_date = ''2024-03-03'', p_completionRate = Num 0 \<rparr>]"
proof -
  have m: "mem_getHabits (mem_of only_deleted_habit one_completion []) = []"
    by (simp add: mem_getHabits_def mem_of_def only_deleted_habit_def ex_habit_def)
  have d: "db_getHabits (db_of only_deleted_habit one_completion []) = []"
    by (simp add: db_getHabits_def db_of_def only_deleted_habit_def ex_habit_def)
  have r: "map zero_day (date_range utc ''2024-03-01'' ''2024-03-03'') =
     [\<lparr> p_date = ''2024-03-01'', p_completionRate = Num 0 \<rparr>,
      \<lparr> p_date = ''2024-03-02'', p_completionRate = Num 0 \<rparr>,
      \<lparr> p_date = ''2024-03-03'', p_completionRate = Num 0 \<rparr>]"
    by (simp add: march_first_days zero_day_def iso_2024 upto.simps)
  from weekly_progress_without_habits[of "mem_of only_deleted_habit one_completion []" utc
      "''2024-03-01''" "''2024-03-03''" "db_of only_deleted_habit one_completion []"] m d r
  show ?thesis by simp
qed

subsection \<open>One entry per day\<close>

lemma weekly_dates:
  "map p_date (mem_getWeeklyProgress z st startDate endDate) = map toISODate (date_range z startDate endDate)"
  "map p_date (db_getWeeklyProgress z db startDate endDate) = map toISODate (date_range z startDate endDate)"
  by (simp_all add: mem_getWeeklyProgress_def db_getWeeklyProgress_def Let_def comp_def)

lemma weekly_dates_fixed:
  assumes "\<bar>c\<bar> < msPerDay" "parseDay startDate = Some a" "parseDay endDate = Some b"
  shows "map toISODate (date_range (fixed_zone c) startDate endDate) = map isoDay [a..b]"
  using assms by (simp add: date_range_fixed day_range_def comp_def)

text \<open>
  Where the offset of local time from UTC is the same all year, \<^verbatim>\<open>getWeeklyProgress\<close> of
  either store returns exactly one entry for each day from the start to the end, both
  included, in ascending order: as many entries as the range has days (none when the start
  is after the end), the entry at position \<open>i\<close> dated \<open>i\<close> days after the start, and each date
  string reading back as its day.
\<close>

theorem weekly_progress_one_entry_per_day:
  assumes "\<bar>c\<bar> < msPerDay" "parseDay startDate = Some a" "parseDay endDate = Some b"
  shows "length (mem_getWeeklyProgress (fixed_zone c) st startDate endDate) = nat (b - a + 1) \<and>
         map p_date (mem_getWeeklyProgress (fixed_zone c) st startDate endDate) = map isoDay [a..b] \<and>
         map (parseDay \<circ> p_date) (mem_getWeeklyProgress (fixed_zone c) st startDate endDate) = map Some [a..b] \<and>
         length (db_getWeeklyProgress (fixed_zone c) db startDate endDate) = nat (b - a + 1) \<and>
         map p_date (db_getWeeklyProgress (fixed_zone c) db startDate endDate) = map isoDay [a..b] \<and>
         map (parseDay \<circ> p_date) (db_getWeeklyProgress (fixed_zone c) db startDate endDate) = map Some [a..b]"
proof -
  note d = weekly_dates_fixed[OF assms]
  have p: "map (\<lambda>n. parseDay (isoDay n)) [a..b] = map Some [a..b]"
    by (rule map_cong[OF refl]) (use assms in \<open>auto intro: parseDay_isoDay_between\<close>)
  have md: "map p_date (mem_getWeeklyProgress (fixed_zone c) st startDate endDate) = map isoDay [a..b]"
    by (simp add: weekly_dates d)
  have dd: "map p_date (db_getWeeklyProgress (fixed_zone c) db startDate endDate) = map isoDay [a..b]"
    by (simp add: weekly_dates d)
  have mp: "map (parseDay \<circ> p_date) (mem_getWeeklyProgress (fixed_zone c) st startDate endDate) = map Some [a..b]"
    unfolding map_map[symmetric] md using p by simp
  have dp: "map (parseDay \<circ> p_date) (db_getWeeklyProgress (fixed_zone c) db startDate endDate) = map Some [a..b]"
    unfolding map_map[symmetric] dd using p by simp
  have ml: "length (mem_getWeeklyProgress (fixed_zone c) st startDate endDate) = nat (b - a + 1)"
    using arg_cong[OF md, of length] by simp
  have dl: "length (db_getWeeklyProgress (fixed_zone c) db startDate endDate) = nat (b - a + 1)"
    using arg_cong[OF dd, of length] by simp
  from md dd mp dp ml dl show ?thesis by simp
qed

theorem weekly_progress_one_entry_per_day_witness:
  "\<bar>32400000\<bar> < msPerDay \<and>
   parseDay ''2024-02-28'' = Some 19781 \<and> parseDay ''2024-03-01'' = Some 19783 \<and>
   length (mem_getWeeklyProgress tokyo (mem_of one_habit one_completion []) ''2024-02-28'' ''2024-03-01'') = 3 \<and>
   map p_date (mem_getWeeklyProgress tokyo (mem_of one_habit one_completion []) ''2024-02-28'' ''2024-03-01'') =
     [''2024-02-28'', ''2024-02-29'', ''2024-03-01''] \<and>
   length (db_getWeeklyProgress tokyo (db_of one_habit one_completion []) ''2024-02-28'' ''2024-03-01'') = 3 \<and>
   map p_date (db_getWeeklyProgress tokyo (db_of one_habit one_completion []) ''2024-02-28'' ''2024-03-01'') =
     [''2024-02-28'', ''2024-02-29'', ''2024-03-01'']"
proof -
  note a = parse_2024(1) and b = parse_2024(2)
  have c: "\<bar>32400000\<bar> < msPerDay" by (simp add: msPerDay_def)
  have r: "map isoDay [19781..19783] = [''2024-02-28'', ''2024-02-29'', ''2024-03-01'']"
    by (simp add: iso_2024 upto.simps)
  from weekly_progress_one_entry_per_day[OF c a b, of "mem_of one_habit one_completion []"
      "db_of one_habit one_completion []"] a b c r
  show ?thesis by (simp add: tokyo_def)
qed

subsection \<open>Across a clock change\<close>

lemma civil_2024_clock_changes:
  "civil_from_days 19811 = (2024, 3, 29)" "civil_from_days 19812 = (2024, 3, 30)"
  "civil_from_days 19813 = (2024, 3, 31)" "civil_from_days 19814 = (2024, 4, 1)"
  "civil_from_days 19815 = (2024, 4, 2)"
  "civil_from_days 20021 = (2024, 10, 25)" "civil_from_days 20022 = (2024, 10, 26)"
  "civil_from_days 20023 = (2024, 10, 27)" "civil_from_days 20024 = (2024, 10, 28)"
  "civil_from_days 20025 = (2024, 10, 29)"
  by (rule civil_eval; simp add: calendar_eval)+

lemma iso_2024_clock_changes:
  "isoDay 19811 = ''2024-03-29''" "isoDay 19812 = ''2024-03-30''" "isoDay 19813 = ''2024-03-31''"
  "isoDay 19814 = ''2024-04-01''" "isoDay 19815 = ''2024-04-02''"
  "isoDay 20021 = ''2024-10-25''" "isoDay 20022 = ''2024-10-26''" "isoDay 20023 = ''2024-10-27''"
  "isoDay 20024 = ''2024-10-28''" "isoDay 20025 = ''2024-10-29''"
  by (simp_all add: isoDay_def civil_2024_clock_changes string_eval)

lemma parse_2024_clock_changes:
  "parseDate ''2024-03-29'' = Some 1711670400000" "parseDate ''2024-04-02'' = Some 1712016000000"
  "parseDate ''2024-10-25'' = Some 1729814400000" "parseDate ''2024-10-29'' = Some 1730160000000"
  "parseDay ''2024-03-29'' = Some 19811" "parseDay ''2024-04-02'' = Some 19815"
  "parseDay ''2024-10-25'' = Some 20021" "parseDay ''2024-10-29'' = Some 20025"
  by (simp_all add: parseDate_def parseDay_def string_eval calendar_eval msPerDay_def)

lemmas berlin_eval = addDays_def berlin_time berlin_utc_offset_def berlin_local_offset_def
  msPerDay_def

lemma berlin_march:
  "date_range berlin ''2024-03-29'' ''2024-04-02'' =
     [1711670400000, 1711756800000, 1711843200000, 1711926000000, 1712012400000]"
  by (simp add: date_range_def parse_2024_clock_changes date_loop.simps berlin_eval)

lemma berlin_october:
  "date_range berlin ''2024-10-25'' ''2024-10-29'' =
     [1729814400000, 1729900800000, 1729987200000, 1730077200000]"
  by (simp add: date_range_def parse_2024_clock_changes date_loop.simps berlin_eval)

lemma berlin_dates:
  "map toISODate [1711670400000, 1711756800000, 1711843200000, 1711926000000, 1712012400000] =
     [''2024-03-29'', ''2024-03-30'', ''2024-03-31'', ''2024-03-31'', ''2024-04-01'']"
  "map toISODate [1729814400000, 1729900800000, 1729987200000, 1730077200000] =
     [''2024-10-25'', ''2024-10-26'', ''2024-10-27'', ''2024-10-28'']"
  by (simp_all add: toISODate_def Day_def msPerDay_def iso_2024_clock_changes)

text \<open>
  Claim C7. The series is to hold exactly one entry for each calendar day from the start
  to the end. The loop of \<^verbatim>\<open>getWeeklyProgress\<close> steps with \<^verbatim>\<open>setDate(getDate() + 1)\<close>, in local
  time, and names the day with \<^verbatim>\<open>toISOString()\<close>, in UTC. In Central European time, both
  stores answer for 2024-03-29 to 2024-04-02, five days, with two entries dated 2024-03-31
  and none dated 2024-04-02, and for 2024-10-25 to 2024-10-29, five days, with four entries.
\<close>

theorem weekly_progress_repeats_and_drops_days:
  "map p_date (mem_getWeeklyProgress berlin st ''2024-03-29'' ''2024-04-02'') =
     [''2024-03-29'', ''2024-03-30'', ''2024-03-31'', ''2024-03-31'', ''2024-04-01''] \<and>
   map p_date (db_getWeeklyProgress berlin db ''2024-03-29'' ''2024-04-02'') =
     [''2024-03-29'', ''2024-03-30'', ''2024-03-31'', ''2024-03-31'', ''2024-04-01''] \<and>
   map isoDay (day_range ''2024-03-29'' ''2024-04-02'') =
     [''2024-03-29'', ''2024-03-30'', ''2024-03-31'', ''2024-04-01'', ''2024-04-02''] \<and>
   map p_date (mem_getWeeklyProgress berlin st ''2024-10-25'' ''2024-10-29'') =
     [''2024-10-25'', ''2024-10-26'', ''2024-10-27'', ''2024-10-28''] \<and>
   map p_date (db_getWeeklyProgress berlin db ''2024-10-25'' ''2024-10-29'') =
     [''2024-10-25'', ''2024-10-26'', ''2024-10-27'', ''2024-10-28''] \<and>
   map isoDay (day_range ''2024-10-25'' ''2024-10-29'') =
     [''2024-10-25'', ''2024-10-26'', ''2024-10-27'', ''2024-10-28'', ''2024-10-29'']"
  unfolding weekly_dates berlin_march berlin_october berlin_dates
  by (simp add: day_range_def parse_2024_clock_changes iso_2024_clock_changes upto.simps)

section \<open>Deleting a trade review\<close>

lemma find_filter_None: "find P (filter (\<lambda>x. \<not> P x) xs) = None"
  by (induction xs) auto

lemma find_None_filter: "(filter P xs \<noteq> []) = (\<exists>y. find P xs = Some y)"
  by (induction xs) auto

text \<open>
  Claim C10. Deleting a trade review removes it for good, in both stores: the call answers
  whether the review existed, the store afterwards is the store before without the entries
  of that id (no entry is kept under it, and a trade review has no flag that could mark it
  inactive), \<^verbatim>\<open>getTradeReview\<close> of the id finds nothing, and every \<^verbatim>\<open>getTradingStats\<close> query is
  computed from the remaining trades alone.
\<close>

theorem trade_review_hard_delete:
  "fst (mem_deleteTradeReview i st) = (mem_getTradeReview st i \<noteq> None) \<and>
   snd (mem_deleteTradeReview i st) = st\<lparr> tradeReviews := filter (\<lambda>(k, t). k \<noteq> i) (tradeReviews st) \<rparr> \<and>
   mem_getTradeReview (snd (mem_deleteTradeReview i st)) i = None \<and>
   mem_getTradingStats (snd (mem_deleteTradeReview i st)) s e =
     mem_stats_of (filter (\<lambda>t. in_range (Some s) (Some e) (t_date t))
        (map snd (filter (\<lambda>(k, t). k \<noteq> i) (tradeReviews st)))) \<and>
   fst (db_deleteTradeReview i db) = (db_getTradeReview db i \<noteq> None) \<and>
   snd (db_deleteTradeReview i db) = db\<lparr> db_tradeReviews := filter (\<lambda>t. t_id t \<noteq> i) (db_tradeReviews db) \<rparr> \<and>
   db_getTradeReview (snd (db_deleteTradeReview i db)) i = None \<and>
   db_getTradingStats (snd (db_deleteTradeReview i db)) s e =
     db_stats_of (sort_desc t_date (filter (\<lambda>t. db_in_range (Some s) (Some e) (t_date t))
        (filter (\<lambda>t. t_id t \<noteq> i) (db_tradeReviews db))))"
proof -
  have d: "AList.delete i (tradeReviews st) = filter (\<lambda>(k, t). k \<noteq> i) (tradeReviews st)"
    by (auto simp: AList.delete_eq case_prod_unfold intro: filter_cong)
  have m1: "fst (mem_deleteTradeReview i st) = (mem_getTradeReview st i \<noteq> None)"
    by (simp add: mem_deleteTradeReview_def mem_getTradeReview_def)
  have m2: "snd (mem_deleteTradeReview i st) = st\<lparr> tradeReviews := filter (\<lambda>(k, t). k \<noteq> i) (tradeReviews st) \<rparr>"
    by (simp add: mem_deleteTradeReview_def d)
  have m3: "mem_getTradeReview (snd (mem_deleteTradeReview i st)) i = None"
    by (simp add: mem_deleteTradeReview_def mem_getTradeReview_def AList.delete_conv')
  have m4: "mem_getTradingStats (snd (mem_deleteTradeReview i st)) s e =
     mem_stats_of (filter (\<lambda>t. in_range (Some s) (Some e) (t_date t))
        (map snd (filter (\<lambda>(k, t). k \<noteq> i) (tradeReviews st))))"
    unfolding m2 by (simp add: mem_getTradingStats_def mem_getTradeReviews_def)
  have d1: "fst (db_deleteTradeReview i db) = (db_getTradeReview db i \<noteq> None)"
    by (simp add: db_deleteTradeReview_def db_getTradeReview_def find_None_filter)
  have d2: "snd (db_deleteTradeReview i db) = db\<lparr> db_tradeReviews := filter (\<lambda>t. t_id t \<noteq> i) (db_tradeReviews db) \<rparr>"
    by (simp add: db_deleteTradeReview_def)
  have d3: "db_getTradeReview (snd (db_deleteTradeReview i db)) i = None"
    unfolding d2 by (simp add: db_getTradeReview_def find_filter_None)
  have d4: "db_getTradingStats (snd (db_deleteTradeReview i db)) s e =
     db_stats_of (sort_desc t_date (filter (\<lambda>t. db_in_range (Some s) (Some e) (t_date t))
        (filter (\<lambda>t. t_id t \<noteq> i) (db_tradeReviews db))))"
    unfolding d2 by (simp add: db_getTradingStats_def db_getTradeReviews_def)
  from m1 m2 m3 m4 d1 d2 d3 d4 show ?thesis by blast
qed

section \<open>The monthly summary\<close>

lemma foldl_count: "foldl (\<lambda>n h. if g h then n + 1 else n) k hs = k + length (filter g hs)"
  by (induction hs arbitrary: k) simp_all

lemma count_completed_filter: "count_completed g hs = length (filter g hs)"
  by (simp add: count_completed_def foldl_count)

lemma length_filter_eq_all: "(length (filter g hs) = length hs) = list_all g hs"
proof (induction hs)
  case Nil
  show ?case by simp
next
  case (Cons h hs)
  have "length (filter g hs) \<noteq> Suc (length hs)"
    using length_filter_le[of g hs] by linarith
  with Cons show ?case by auto
qed

lemma month_step_perfect:
  "month_step done_on hs (tc, tp, pd) ds =
     (tc + length (filter (done_on ds) hs), tp + length hs,
      if perfect_day done_on hs ds then pd + 1 else pd)"
  by (auto simp: month_step_def count_completed_filter length_filter_eq_all perfect_day_def Let_def)

lemma foldl_month_step:
  "foldl (month_step done_on hs) (tc, tp, pd) dates =
     (tc + sum_list (map (\<lambda>ds. length (filter (done_on ds) hs)) dates),
      tp + length hs * length dates,
      pd + length (filter (perfect_day done_on hs) dates))"
  by (induction dates arbitrary: tc tp pd) (simp_all add: month_step_perfect)

lemma map_add_upto: "map (\<lambda>d. a + d) [i..j] = [a + i..a + j]"
proof (induction "nat (j - i + 1)" arbitrary: i)
  case 0
  then show ?case by simp
next
  case (Suc n)
  then have ij: "i \<le> j" by simp
  from Suc have "n = nat (j - (i + 1) + 1)" by simp
  from Suc(1)[OF this] have "map (\<lambda>d. a + d) [i + 1..j] = [a + (i + 1)..a + j]" .
  with ij show ?case by (simp add: upto_rec1[of i j] upto_rec1[of "a + i" "a + j"] add.assoc)
qed

lemma fullYear_id: "year < 0 \<or> 99 < year \<Longrightarrow> fullYear year = year"
  by (auto simp: fullYear_def)

lemma MakeDay_first:
  assumes "1 \<le> month" "month \<le> 12"
  shows "MakeDay year (month - 1) 1 = days_from_civil year month 1"
proof -
  from assms have "(month - 1) div 12 = 0" "(month - 1) mod 12 = month - 1" by simp_all
  then show ?thesis by (simp add: MakeDay_def)
qed

lemma MakeDay_last:
  assumes "1 \<le> month" "month \<le> 12"
  shows "MakeDay year month 0 = days_from_civil year month 1 + days_in_month year month - 1"
  using days_from_civil_next_month[OF assms, of year] by (simp add: MakeDay_def)

lemma isoDay_month_day:
  assumes "1 \<le> month" "month \<le> 12" "1 \<le> d" "d \<le> days_in_month year month"
  shows "isoDay (days_from_civil year month 1 + d - 1) = isoDate year month d"
  using civil_from_days_inverse[OF assms] days_from_civil_day[of year month d]
  by (simp add: isoDay_def)

lemma days_in_month_range: "28 \<le> days_in_month y m \<and> days_in_month y m \<le> 31"
  by (simp add: days_in_month_def)

lemma month_days:
  assumes "1 \<le> month" "month \<le> 12"
  shows "map isoDay [MakeDay year (month - 1) 1..MakeDay year month 0] = month_dates year month"
proof -
  define t where "t = days_from_civil year month 1 - 1"
  have f: "MakeDay year (month - 1) 1 = t + 1" "MakeDay year month 0 = t + days_in_month year month"
    by (simp_all add: MakeDay_first[OF assms] MakeDay_last[OF assms] t_def)
  have "map isoDay [t + 1..t + days_in_month year month] =
      map isoDay (map (\<lambda>d. t + d) [1..days_in_month year month])"
    by (simp only: map_add_upto)
  also have "\<dots> = map (\<lambda>d. isoDay (t + d)) [1..days_in_month year month]"
    by (simp add: comp_def)
  also have "\<dots> = map (isoDate year month) [1..days_in_month year month]"
  proof (rule map_cong[OF refl])
    fix d assume "d \<in> set [1..days_in_month year month]"
    then have d: "1 \<le> d" "d \<le> days_in_month year month" by simp_all
    have "t + d = days_from_civil year month 1 + d - 1" by (simp add: t_def)
    then show "isoDay (t + d) = isoDate year month d"
      by (simp only: isoDay_month_day[OF assms d])
  qed
  finally show ?thesis by (simp add: f month_dates_def)
qed

lemma month_days_before:
  assumes "1 \<le> month" "month \<le> 12"
  shows "map isoDay [MakeDay year (month - 1) 1 - 1..MakeDay year month 0 - 1] =
           isoDay (MakeDay year (month - 1) 1 - 1) # butlast (month_dates year month)"
proof -
  define a where "a = MakeDay year (month - 1) 1"
  define b where "b = MakeDay year month 0"
  from days_in_month_range[of year month] have ab: "a \<le> b"
    by (simp add: a_def b_def MakeDay_first[OF assms] MakeDay_last[OF assms])
  then have "[a..b] = [a..b - 1] @ [b]" by (simp add: upto_rec2)
  then have "butlast (map isoDay [a..b]) = map isoDay [a..b - 1]" by (simp add: butlast_append)
  moreover from ab have "[a - 1..b - 1] = (a - 1) # [a..b - 1]" by (simp add: upto_rec1)
  ultimately show ?thesis
    using month_days[OF assms, of year] by (simp add: a_def b_def)
qed

lemma MakeDay_month_bounds:
  assumes "0 \<le> year" "year \<le> 9999" "1 \<le> month" "month \<le> 12"
  shows "\<bar>MakeDay year (month - 1) 1\<bar> < 99999999" "\<bar>MakeDay year month 0\<bar> < 99999999"
proof -
  note dm = days_in_month_range[of year month]
  have b: "- 719528 \<le> days_from_civil year month 1" "days_from_civil year month 1 \<le> 2932896"
    using days_from_civil_bounds(3,4)[OF assms(3,4), of 1 year] assms(1,2) by simp_all
  then show "\<bar>MakeDay year (month - 1) 1\<bar> < 99999999" "\<bar>MakeDay year month 0\<bar> < 99999999"
    using dm by (simp_all add: MakeDay_first[OF assms(3,4)] MakeDay_last[OF assms(3,4)] abs_less_iff)
qed


subsection \<open>The database-backed store\<close>

lemma lastDate_month:
  assumes "100 \<le> year" "year \<le> 9999" "1 \<le> month" "month \<le> 12"
  shows "lastDate z year month = Some (days_in_month year month)"
proof -
  from assms have y: "fullYear year = year" "0 \<le> year" by (simp_all add: fullYear_def)
  have v: "newDate z year month 0 = Some (UTC z (MakeDay year month 0 * msPerDay))"
    using newDate_valid[of year month 0 z] MakeDay_month_bounds(2)[OF y(2) assms(2-4)]
    by (simp add: y)
  have "MakeDay year month 0 = days_from_civil year month (days_in_month year month)"
    using MakeDay_last[OF assms(3,4)] days_from_civil_day[of year month "days_in_month year month"] by simp
  moreover have "civil_from_days (days_from_civil year month (days_in_month year month)) =
      (year, month, days_in_month year month)"
    using days_in_month_range[of year month] by (intro civil_from_days_inverse assms) simp_all
  ultimately have "dateOfDay (MakeDay year month 0) = days_in_month year month"
    by (simp add: dateOfDay_def)
  then show ?thesis by (simp add: lastDate_def v getDate_local_midnight)
qed

lemma db_month_dates:
  assumes "1000 \<le> year" "year \<le> 9999" "1 \<le> month" "month \<le> 12"
  shows "map (db_dateStr year month) [1..days_in_month year month] = month_dates year month"
  unfolding month_dates_def
  by (rule map_cong[OF refl]) (use assms in \<open>simp add: db_dateStr_iso\<close>)

lemma db_perfectDays:
  assumes "1000 \<le> year" "year \<le> 9999" "1 \<le> month" "month \<le> 12"
  shows "ms_perfectDays (db_getMonthlyStats z db year month) =
     length (filter (perfect_day (db_completed db) (db_getHabits db)) (month_dates year month))"
proof -
  from assms have "100 \<le> year" by simp
  note l = lastDate_month[OF this assms(2-4)]
  show ?thesis
    unfolding db_getMonthlyStats_def Let_def l option.case db_month_dates[OF assms] foldl_month_step
    by (simp add: case_prod_unfold)
qed

subsection \<open>The map-backed store\<close>

text \<open>
  Where local time is \<open>c\<close> milliseconds from UTC all year, the day loop of
  \<^verbatim>\<open>MemStorage.getMonthlyStats\<close> runs from local midnight of the first day of the month to
  local midnight of the last, and names each day by its UTC date: the same day when the zone
  is not east of UTC, the day before when it is.
\<close>

lemma mem_month_loop:
  assumes "\<bar>c\<bar> < msPerDay" "100 \<le> year" "year \<le> 9999" "1 \<le> month" "month \<le> 12"
  shows "newDate (fixed_zone c) year (month - 1) 1 = Some (MakeDay year (month - 1) 1 * msPerDay - c)"
    and "newDate (fixed_zone c) year month 0 = Some (MakeDay year month 0 * msPerDay - c)"
    and "date_loop (fixed_zone c) (MakeDay year (month - 1) 1 * msPerDay - c)
           (MakeDay year month 0 * msPerDay - c) =
         map (\<lambda>n. n * msPerDay - c) [MakeDay year (month - 1) 1..MakeDay year month 0]"
proof -
  from assms have y: "fullYear year = year" "0 \<le> year" by (simp_all add: fullYear_def)
  note b = MakeDay_month_bounds[OF y(2) assms(3-5)]
  show "newDate (fixed_zone c) year (month - 1) 1 = Some (MakeDay year (month - 1) 1 * msPerDay - c)"
    using newDate_valid[of year "month - 1" 1 "fixed_zone c"] b(1)
    by (simp add: y fixed_zone_time[OF assms(1)])
  show "newDate (fixed_zone c) year month 0 = Some (MakeDay year month 0 * msPerDay - c)"
    using newDate_valid[of year month 0 "fixed_zone c"] b(2)
    by (simp add: y fixed_zone_time[OF assms(1)])
  show "date_loop (fixed_zone c) (MakeDay year (month - 1) 1 * msPerDay - c)
           (MakeDay year month 0 * msPerDay - c) =
         map (\<lambda>n. n * msPerDay - c) [MakeDay year (month - 1) 1..MakeDay year month 0]"
    using date_loop_fixed[OF assms(1), of "MakeDay year (month - 1) 1" "- c" "MakeDay year month 0"]
    by simp
qed


lemma mem_month_dates_east:
  assumes "0 < c" "c < msPerDay" "1 \<le> month" "month \<le> 12"
  shows "map toISODate (map (\<lambda>n. n * msPerDay - c) [MakeDay year (month - 1) 1..MakeDay year month 0]) =
           isoDay (MakeDay year (month - 1) 1 - 1) # butlast (month_dates year month)"
proof -
  have "toISODate (n * msPerDay - c) = isoDay (n - 1)" for n
    using toISODate_of_day[of "msPerDay - c" "n - 1"] assms(1,2) by (simp add: algebra_simps)
  then have "map toISODate (map (\<lambda>n. n * msPerDay - c) [MakeDay year (month - 1) 1..MakeDay year month 0]) =
      map isoDay (map (\<lambda>n. - 1 + n) [MakeDay year (month - 1) 1..MakeDay year month 0])"
    by (simp add: comp_def)
  also have "\<dots> = map isoDay [MakeDay year (month - 1) 1 - 1..MakeDay year month 0 - 1]"
    by (simp only: map_add_upto) simp
  finally show ?thesis by (simp only: month_days_before[OF assms(3,4)])
qed

lemma mem_monthly_split:
  assumes "newDate z year (month - 1) 1 = Some s" "newDate z year month 0 = Some e"
  shows "map_sum id ms_perfectDays (mem_getMonthlyStats z st year month) =
           Inr (length (filter (perfect_day (mem_completed st) (mem_getHabits st))
                  (map toISODate (date_loop z s e))))"
    and "map_sum id ms_bestStreak (mem_getMonthlyStats z st year month) =
           Inr (snd (foldl streak_step (0, 0)
                  (mem_getWeeklyProgress z st (toISODate s) (toISODate e))))"
  unfolding mem_getMonthlyStats_def Let_def assms option.case foldl_month_step
  by (simp_all add: case_prod_unfold)


lemmas store_eval = mem_of_def db_of_def ex_habit_def ex_completion_def ex_trade_def
  mem_getHabits_def db_getHabits_def mem_completed_def db_completed_def
  mem_getHabitCompletion_def db_getHabitCompletion_def


text \<open>March 2024 in a store with one habit.\<close>

lemma month_dates_2024_3:
  "month_dates 2024 3 =
     [''2024-03-01'', ''2024-03-02'', ''2024-03-03'', ''2024-03-04'', ''2024-03-05'',
      ''2024-03-06'', ''2024-03-07'', ''2024-03-08'', ''2024-03-09'', ''2024-03-10'',
      ''2024-03-11'', ''2024-03-12'', ''2024-03-13'', ''2024-03-14'', ''2024-03-15'',
      ''2024-03-16'', ''2024-03-17'', ''2024-03-18'', ''2024-03-19'', ''2024-03-20'',
      ''2024-03-21'', ''2024-03-22'', ''2024-03-23'', ''2024-03-24'', ''2024-03-25'',
      ''2024-03-26'', ''2024-03-27'', ''2024-03-28'', ''2024-03-29'', ''2024-03-30'',
      ''2024-03-31'']"
  by (simp add: month_dates_def calendar_eval string_eval upto.simps)



subsection \<open>Years that are not written with four digits\<close>




subsection \<open>East of UTC\<close>

text \<open>
  Where local time is a constant offset east of UTC, local midnight of a day is an instant
  of the day before in UTC: the day loop of \<^verbatim>\<open>MemStorage.getMonthlyStats\<close> names the last day
  of the month before and every day of the month but its last.
\<close>

theorem mem_perfectDays_east_of_utc:
  assumes "0 < c" "c < msPerDay" "100 \<le> year" "year \<le> 9999" "1 \<le> month" "month \<le> 12"
  shows "map_sum id ms_perfectDays (mem_getMonthlyStats (fixed_zone c) st year month) =
     Inr (length (filter (perfect_day (mem_completed st) (mem_getHabits st))
            (isoDay (MakeDay year (month - 1) 1 - 1) # butlast (month_dates year month))))"
proof -
  from assms(1,2) have c: "\<bar>c\<bar> < msPerDay" by simp
  note l = mem_month_loop[OF c assms(3-6)]
  show ?thesis
    unfolding mem_monthly_split(1)[OF l(1,2)] l(3) mem_month_dates_east[OF assms(1,2,5,6)] ..
qed

lemma iso_19782: "isoDay (MakeDay 2024 (3 - 1) 1 - 1) = ''2024-02-29''"
  by (simp add: MakeDay_def calendar_eval iso_2024)

theorem mem_perfectDays_east_of_utc_witness:
  "(0::int) < 32400000 \<and> 32400000 < msPerDay \<and> (100::int) \<le> 2024 \<and> (2024::int) \<le> 9999 \<and>
   (1::int) \<le> 3 \<and> (3::int) \<le> 12 \<and>
   map_sum id ms_perfectDays (mem_getMonthlyStats tokyo (mem_of one_habit cs_march_end []) 2024 3) = Inr 0 \<and>
   ms_perfectDays (db_getMonthlyStats tokyo (db_of one_habit cs_march_end []) 2024 3) = 1 \<and>
   length (filter (perfect_day (mem_completed (mem_of one_habit cs_march_end []))
             (mem_getHabits (mem_of one_habit cs_march_end []))) (month_dates 2024 3)) = 1"
proof -
  have c: "(0::int) < 32400000" "32400000 < msPerDay" by (simp_all add: msPerDay_def)
  have a: "length (filter (perfect_day (mem_completed (mem_of one_habit cs_march_end []))
      (mem_getHabits (mem_of one_habit cs_march_end [])))
      (isoDay (MakeDay 2024 (3 - 1) 1 - 1) # butlast (month_dates 2024 3))) = 0"
    unfolding month_dates_2024_3 iso_19782
    by (simp add: perfect_day_def store_eval one_habit_def cs_march_end_def)
  have b: "length (filter (perfect_day (mem_completed (mem_of one_habit cs_march_end []))
      (mem_getHabits (mem_of one_habit cs_march_end []))) (month_dates 2024 3)) = 1"
    "length (filter (perfect_day (db_completed (db_of one_habit cs_march_end []))
      (db_getHabits (db_of one_habit cs_march_end []))) (month_dates 2024 3)) = 1"
    unfolding month_dates_2024_3
    by (simp_all add: perfect_day_def store_eval one_habit_def cs_march_end_def)
  have d: "ms_perfectDays (db_getMonthlyStats tokyo (db_of one_habit cs_march_end []) 2024 3) = 1"
    using db_perfectDays[of 2024 3 tokyo "db_of one_habit cs_march_end []"] b(2) by simp
  from mem_perfectDays_east_of_utc[OF c, of 2024 3 "mem_of one_habit cs_march_end []"] a b(1) d c
  show ?thesis by (simp add: tokyo_def)
qed

subsection \<open>The best streak of a month\<close>

lemma takeWhile_le_longest_run: "length (takeWhile P xs) \<le> longest_run P xs"
  by (cases xs) simp_all

lemma streak_scan:
  "c \<le> b \<Longrightarrow>
   snd (foldl streak_step (c, b) xs) =
     max b (max (c + length (takeWhile full_rate xs)) (longest_run full_rate xs))"
proof (induction xs arbitrary: c b)
  case Nil
  then show ?case by simp
next
  case (Cons x xs)
  show ?case
  proof (cases "full_rate x")
    case True
    then have s: "streak_step (c, b) x = (c + 1, max b (c + 1))"
      by (simp add: streak_step_def full_rate_def)
    have "c + 1 \<le> max b (c + 1)" by simp
    from Cons.IH[OF this] True show ?thesis by (auto simp: s max_def)
  next
    case False
    then have s: "streak_step (c, b) x = (0, b)"
      by (simp add: streak_step_def full_rate_def)
    from Cons.IH[of 0 b] False Cons.prems takeWhile_le_longest_run[of full_rate xs]
    show ?thesis by (auto simp: s max_def)
  qed
qed

lemma best_streak_scan: "snd (foldl streak_step (0, 0) xs) = longest_run full_rate xs"
  using streak_scan[of 0 0 xs] takeWhile_le_longest_run[of full_rate xs] by simp

lemma mem_weekly_entries:
  "mem_getWeeklyProgress z st startDate endDate =
     map (progress_entry (mem_completed st) (mem_getHabits st))
         (map toISODate (date_range z startDate endDate))"
  by (simp add: mem_getWeeklyProgress_def Let_def progress_entry_def count_completed_filter comp_def)

lemma db_weekly_entries:
  "db_getWeeklyProgress z db startDate endDate =
     map (progress_entry (db_completed db) (db_getHabits db))
         (map toISODate (date_range z startDate endDate))"
  by (simp add: db_getWeeklyProgress_def Let_def progress_entry_def count_completed_filter comp_def)

lemma month_ends:
  assumes "1 \<le> month" "month \<le> 12"
  shows "isoDay (MakeDay year (month - 1) 1) = isoDate year month 1"
    and "isoDay (MakeDay year month 0) = isoDate year month (days_in_month year month)"
  using isoDay_month_day[OF assms, of 1 year]
    isoDay_month_day[OF assms, of "days_in_month year month" year]
    days_in_month_range[of year month]
  by (simp_all add: MakeDay_first[OF assms] MakeDay_last[OF assms])

lemma month_day_range:
  assumes "0 \<le> year" "year \<le> 9999" "1 \<le> month" "month \<le> 12"
  shows "day_range (isoDate year month 1) (isoDate year month (days_in_month year month)) =
           [MakeDay year (month - 1) 1..MakeDay year month 0]"
proof -
  note dm = days_in_month_range[of year month]
  have "parseDay (isoDate year month 1) = Some (MakeDay year (month - 1) 1)"
    using parseDay_isoDate[OF assms, of 1] by (simp add: MakeDay_first[OF assms(3,4)])
  moreover have "parseDay (isoDate year month (days_in_month year month)) = Some (MakeDay year month 0)"
    using parseDay_isoDate[OF assms, of "days_in_month year month"] dm
    by (simp add: MakeDay_last[OF assms(3,4)])
  ultimately show ?thesis by (simp add: day_range_def)
qed

lemma month_series:
  assumes "\<bar>c\<bar> < msPerDay" "0 \<le> year" "year \<le> 9999" "1 \<le> month" "month \<le> 12"
  shows "map toISODate (date_range (fixed_zone c) (isoDate year month 1)
            (isoDate year month (days_in_month year month))) = month_dates year month"
  unfolding date_range_fixed[OF assms(1)] month_day_range[OF assms(2-5)]
  using month_days[OF assms(4,5), of year] by (simp add: comp_def)

lemma mem_bestStreak_month:
  assumes "- msPerDay < c" "c \<le> 0" "100 \<le> year" "year \<le> 9999" "1 \<le> month" "month \<le> 12"
  shows "map_sum id ms_bestStreak (mem_getMonthlyStats (fixed_zone c) st year month) =
           Inr (longest_run full_rate
             (map (progress_entry (mem_completed st) (mem_getHabits st)) (month_dates year month))) \<and>
         mem_getWeeklyProgress (fixed_zone c) st (isoDate year month 1)
             (isoDate year month (days_in_month year month)) =
           map (progress_entry (mem_completed st) (mem_getHabits st)) (month_dates year month)"
proof -
  from assms have c: "\<bar>c\<bar> < msPerDay" and y: "0 \<le> year" by simp_all
  note l = mem_month_loop[OF c assms(3-6)]
  have i: "toISODate (MakeDay year (month - 1) 1 * msPerDay - c) = isoDate year month 1"
    "toISODate (MakeDay year month 0 * msPerDay - c) = isoDate year month (days_in_month year month)"
    using toISODate_of_day[of "- c"] assms(1,2) month_ends[OF assms(5,6), of year] by simp_all
  have w: "mem_getWeeklyProgress (fixed_zone c) st (isoDate year month 1)
             (isoDate year month (days_in_month year month)) =
           map (progress_entry (mem_completed st) (mem_getHabits st)) (month_dates year month)"
    unfolding mem_weekly_entries month_series[OF c y assms(4-6)] ..
  show ?thesis
    unfolding mem_monthly_split(2)[OF l(1,2)] i w best_streak_scan by simp
qed

text \<open>
  Where local time is a constant offset from UTC that is not east of it,
  \<^verbatim>\<open>MemStorage.getMonthlyStats\<close> returns as \<^verbatim>\<open>bestStreak\<close> the longest run of days with a
  completion rate of 100 in the progress series of the month, which is the series
  \<^verbatim>\<open>getWeeklyProgress\<close> returns from the first to the last day of the month.
\<close>

theorem mem_bestStreak_longest_run:
  assumes "- msPerDay < c" "c \<le> 0" "100 \<le> year" "year \<le> 9999" "1 \<le> month" "month \<le> 12"
  shows "map_sum id ms_bestStreak (mem_getMonthlyStats (fixed_zone c) st year month) =
           Inr (longest_run full_rate
             (map (progress_entry (mem_completed st) (mem_getHabits st)) (month_dates year month))) \<and>
         mem_getWeeklyProgress (fixed_zone c) st (isoDate year month 1)
             (isoDate year month (days_in_month year month)) =
           map (progress_entry (mem_completed st) (mem_getHabits st)) (month_dates year month)"
  using assms by (rule mem_bestStreak_month)

lemma db_bestStreak_zero: "ms_bestStreak (db_getMonthlyStats z db year month) = 0"
  by (simp add: db_getMonthlyStats_def Let_def case_prod_unfold)

lemma day_rate_all: "0 < n \<Longrightarrow> day_rate n n = Num 100"
  by (simp add: day_rate_def js_of_nat_def floor_eq_iff)

lemma day_rate_none: "day_rate 0 n = Num 0"
  by (simp add: day_rate_def js_of_nat_def)

lemma march_2024_ends:
  "isoDate 2024 3 1 = ''2024-03-01''" "isoDate 2024 3 (days_in_month 2024 3) = ''2024-03-31''"
  by (simp_all add: calendar_eval string_eval)

lemma march_2024_series:
  "map toISODate (date_range utc ''2024-03-01'' ''2024-03-31'') = month_dates 2024 3"
  using month_series[of 0 2024 3] by (simp add: utc_def march_2024_ends msPerDay_def)

lemma march_series:
  "map (progress_entry (mem_completed (mem_of one_habit cs_march []))
          (mem_getHabits (mem_of one_habit cs_march []))) (month_dates 2024 3) =
   map (\<lambda>ds. \<lparr> p_date = ds, p_completionRate = Num 100 \<rparr>) [''2024-03-01'', ''2024-03-02'', ''2024-03-03''] @
   map (\<lambda>ds. \<lparr> p_date = ds, p_completionRate = Num 0 \<rparr>) (drop 3 (month_dates 2024 3))"
  "map (progress_entry (db_completed (db_of one_habit cs_march []))
          (db_getHabits (db_of one_habit cs_march []))) (month_dates 2024 3) =
   map (\<lambda>ds. \<lparr> p_date = ds, p_completionRate = Num 100 \<rparr>) [''2024-03-01'', ''2024-03-02'', ''2024-03-03''] @
   map (\<lambda>ds. \<lparr> p_date = ds, p_completionRate = Num 0 \<rparr>) (drop 3 (month_dates 2024 3))"
  unfolding month_dates_2024_3
  by (simp_all add: progress_entry_def store_eval one_habit_def cs_march_def day_rate_all day_rate_none)

lemma march_longest_run:
  "longest_run full_rate
     (map (\<lambda>ds. \<lparr> p_date = ds, p_completionRate = Num 100 \<rparr>) [''2024-03-01'', ''2024-03-02'', ''2024-03-03''] @
      map (\<lambda>ds. \<lparr> p_date = ds, p_completionRate = Num 0 \<rparr>) (drop 3 (month_dates 2024 3))) = 3"
  unfolding month_dates_2024_3 by (simp add: full_rate_def)

theorem mem_bestStreak_longest_run_witness:
  "- msPerDay < - 18000000 \<and> (- 18000000::int) \<le> 0 \<and>
   (100::int) \<le> 2024 \<and> (2024::int) \<le> 9999 \<and> (1::int) \<le> 3 \<and> (3::int) \<le> 12 \<and>
   map_sum id ms_bestStreak
     (mem_getMonthlyStats (fixed_zone (- 18000000)) (mem_of one_habit cs_march []) 2024 3) = Inr 3"
proof -
  have c: "- msPerDay < - 18000000" "(- 18000000::int) \<le> 0" by (simp_all add: msPerDay_def)
  show ?thesis
    using mem_bestStreak_longest_run[OF c, of 2024 3 "mem_of one_habit cs_march []"] c
    unfolding march_series march_longest_run by simp
qed

text \<open>
  Claim C3. \<^verbatim>\<open>bestStreak\<close> is to be the longest run of days of the month with a completion
  rate of 100. \<^verbatim>\<open>DatabaseStorage.getMonthlyStats\<close> initialises \<^verbatim>\<open>bestStreak\<close> to 0 and returns
  it unchanged, in every time zone: with one habit done on the first three days of March
  2024 it answers 0, where the series of \<^verbatim>\<open>DatabaseStorage.getWeeklyProgress\<close> for that month
  has a run of 3 and \<^verbatim>\<open>MemStorage.getMonthlyStats\<close> answers 3 (both run in UTC).
\<close>

theorem db_bestStreak_never_computed:
  "ms_bestStreak (db_getMonthlyStats z (db_of one_habit cs_march []) 2024 3) = 0 \<and>
   longest_run full_rate
     (db_getWeeklyProgress utc (db_of one_habit cs_march []) ''2024-03-01'' ''2024-03-31'') = 3 \<and>
   map_sum id ms_bestStreak (mem_getMonthlyStats utc (mem_of one_habit cs_march []) 2024 3) = Inr 3"
proof -
  have "longest_run full_rate
     (db_getWeeklyProgress utc (db_of one_habit cs_march []) ''2024-03-01'' ''2024-03-31'') = 3"
    unfolding db_weekly_entries march_2024_series march_series
    by (rule march_longest_run)
  moreover have "map_sum id ms_bestStreak (mem_getMonthlyStats utc (mem_of one_habit cs_march []) 2024 3) = Inr 3"
    using mem_bestStreak_month[of 0 2024 3 "mem_of one_habit cs_march []"]
    unfolding march_series march_longest_run by (simp add: utc_def msPerDay_def)
  ultimately show ?thesis by (simp add: db_bestStreak_zero)
qed

section \<open>The current streak of a habit\<close>

lemma find_insert_desc:
  "find (\<lambda>x. f x = v) (insert_desc f c ys) =
     (if f c = v then Some c else find (\<lambda>x. f x = v) ys)"
  by (induction ys) auto

lemma find_sort_desc: "find (\<lambda>x. f x = v) (sort_desc f xs) = find (\<lambda>x. f x = v) xs"
  unfolding sort_desc_def by (induction xs) (simp_all add: find_insert_desc)

lemma in_range_unbounded [simp]: "in_range None None d"
  by (simp add: in_range_def)

lemma find_keyed:
  "list_all (\<lambda>(k, c). k = (c_habitId c, c_date c)) al \<Longrightarrow>
   find (\<lambda>c. c_date c = ds) (filter (\<lambda>c. c_habitId c = h) (map snd al)) = map_of al (h, ds)"
  by (induction al) auto

lemma mem_find_completion:
  assumes "completions_keyed st"
  shows "find (\<lambda>c. c_date c = ds) (sort_desc c_date (mem_getHabitCompletions st (h_id habit) None None)) =
     mem_getHabitCompletion st (h_id habit) ds"
proof -
  have "mem_getHabitCompletions st (h_id habit) None None =
      filter (\<lambda>c. c_habitId c = h_id habit) (map snd (habitCompletions st))"
    unfolding mem_getHabitCompletions_def by (rule filter_cong) auto
  with find_keyed[OF assms[unfolded completions_keyed_def]] show ?thesis
    by (simp add: find_sort_desc mem_getHabitCompletion_def)
qed

lemma mem_streak_loop_count:
  assumes "\<bar>c\<bar> < msPerDay" "k \<le> m"
    and "\<And>j. j < k \<Longrightarrow> \<exists>x. find (\<lambda>x. c_date x = isoDay (n - int j)) cs = Some x \<and> c_completed x"
    and "k < m \<Longrightarrow> \<not> (\<exists>x. find (\<lambda>x. c_date x = isoDay (n - int k)) cs = Some x \<and> c_completed x)"
  shows "mem_streak_loop (fixed_zone c) m cs (n * msPerDay) acc = acc + k"
  using assms(2-4)
proof (induction m arbitrary: n acc k)
  case 0
  then show ?case by simp
next
  case (Suc m)
  show ?case
  proof (cases k)
    case 0
    with Suc.prems(3) show ?thesis by (auto split: option.splits)
  next
    case (Suc k')
    from Suc.prems(2)[of 0] Suc obtain x where x: "find (\<lambda>x. c_date x = isoDay n) cs = Some x" "c_completed x"
      by auto
    have "mem_streak_loop (fixed_zone c) m cs ((n - 1) * msPerDay) (acc + 1) = acc + 1 + k'"
    proof (rule Suc.IH)
      show "k' \<le> m" using Suc.prems(1) Suc by simp
    next
      fix j assume "j < k'"
      then have "Suc j < k" using Suc by simp
      from Suc.prems(2)[OF this]
      show "\<exists>x. find (\<lambda>x. c_date x = isoDay (n - 1 - int j)) cs = Some x \<and> c_completed x"
        by (simp add: algebra_simps)
    next
      assume "k' < m"
      then have "k < Suc m" using Suc by simp
      from Suc.prems(3)[OF this] Suc
      show "\<not> (\<exists>x. find (\<lambda>x. c_date x = isoDay (n - 1 - int k')) cs = Some x \<and> c_completed x)"
        by (simp add: algebra_simps)
    qed
    moreover have "addDays (fixed_zone c) (n * msPerDay) (- 1) = (n - 1) * msPerDay"
      by (simp add: fixed_zone_time[OF assms(1)] algebra_simps)
    ultimately show ?thesis using x Suc by simp
  qed
qed

lemma mem_completed_find:
  "mem_completed st ds habit =
     (\<exists>c. mem_getHabitCompletion st (h_id habit) ds = Some c \<and> c_completed c)"
  by (auto simp: mem_completed_def split: option.splits)

subsection \<open>The month of a reference date\<close>

lemma Day_near:
  assumes "\<bar>r\<bar> < msPerDay"
  shows "n - 1 \<le> Day (n * msPerDay + r) \<and> Day (n * msPerDay + r) \<le> n"
proof (cases "0 \<le> r")
  case True
  with assms Day_of_day[of r n] show ?thesis by simp
next
  case False
  with assms Day_of_day[of "msPerDay + r" "n - 1"] show ?thesis by (simp add: algebra_simps)
qed

lemma dateOfDay_range: "1 \<le> dateOfDay n \<and> dateOfDay n \<le> 31"
  and monthOfDay_range: "0 \<le> monthOfDay n \<and> monthOfDay n \<le> 11"
proof -
  obtain y m d where c: "civil_from_days n = (y, m, d)" by (cases "civil_from_days n") auto
  from days_from_civil_inverse[OF c] c
  show "1 \<le> dateOfDay n \<and> dateOfDay n \<le> 31" "0 \<le> monthOfDay n \<and> monthOfDay n \<le> 11"
    by (simp_all add: dateOfDay_def monthOfDay_def)
qed

lemma MakeDay_next_month:
  assumes "0 \<le> mi" "mi \<le> 11"
  shows "MakeDay y (mi + 1) 0 = MakeDay y mi 1 + days_in_month y (mi + 1) - 1"
  using MakeDay_first[of "mi + 1" y] MakeDay_last[of "mi + 1" y] assms by simp

lemma month_of_day_bounds:
  assumes "- 719530 \<le> N" "N \<le> 2932900"
  shows "\<bar>MakeDay (fullYear (yearOfDay N)) (monthOfDay N) 1\<bar> < 99999999"
    and "\<bar>MakeDay (fullYear (yearOfDay N)) (monthOfDay N + 1) 0\<bar> < 99999999"
proof -
  note m = monthOfDay_range[of N] and d = dateOfDay_range[of N]
  note dm = days_in_month_range[of "fullYear (yearOfDay N)" "monthOfDay N + 1"]
  have n: "MakeDay (fullYear (yearOfDay N)) (monthOfDay N + 1) 0 =
      MakeDay (fullYear (yearOfDay N)) (monthOfDay N) 1 +
        days_in_month (fullYear (yearOfDay N)) (monthOfDay N + 1) - 1"
    using m by (intro MakeDay_next_month) simp_all
  have f: "\<bar>MakeDay (fullYear (yearOfDay N)) (monthOfDay N) 1\<bar> < 99999000"
  proof (cases "0 \<le> yearOfDay N \<and> yearOfDay N \<le> 99")
    case True
    then have y: "fullYear (yearOfDay N) = 1900 + yearOfDay N" by (simp add: fullYear_def)
    have "MakeDay (1900 + yearOfDay N) (monthOfDay N) 1 =
        days_from_civil (1900 + yearOfDay N) (monthOfDay N + 1) 1"
      using MakeDay_first[of "monthOfDay N + 1" "1900 + yearOfDay N"] m by simp
    moreover have "- 719528 \<le> days_from_civil (1900 + yearOfDay N) (monthOfDay N + 1) 1"
      "days_from_civil (1900 + yearOfDay N) (monthOfDay N + 1) 1 \<le> 2932896"
      using days_from_civil_bounds(3,4)[of "monthOfDay N + 1" 1 "1900 + yearOfDay N"] m True
      by simp_all
    ultimately show ?thesis by (simp add: y abs_less_iff)
  next
    case False
    then have y: "fullYear (yearOfDay N) = yearOfDay N" by (auto simp: fullYear_def)
    have "MakeDay (yearOfDay N) (monthOfDay N) 1 = N + (1 - dateOfDay N)"
      using MakeDay_fields[of N "1 - dateOfDay N"] by simp
    with assms d show ?thesis by (simp add: y abs_less_iff)
  qed
  then show "\<bar>MakeDay (fullYear (yearOfDay N)) (monthOfDay N) 1\<bar> < 99999999" by simp
  from f dm show "\<bar>MakeDay (fullYear (yearOfDay N)) (monthOfDay N + 1) 0\<bar> < 99999999"
    unfolding n by (simp add: abs_less_iff)
qed

lemma habit_month_valid:
  assumes "parseDay date = Some n"
  shows "\<exists>s e. newDate z (getFullYear z (n * msPerDay)) (getMonth z (n * msPerDay)) 1 = Some s \<and>
               newDate z (getFullYear z (n * msPerDay)) (getMonth z (n * msPerDay) + 1) 0 = Some e"
proof -
  define N where "N = Day (LocalTime z (n * msPerDay))"
  from Day_near[OF LocalTZA_bound[of z "n * msPerDay" True], of n] parseDay_range[OF assms]
  have "- 719530 \<le> N" "N \<le> 2932900" by (simp_all add: N_def LocalTime_def)
  from month_of_day_bounds[OF this] show ?thesis
    by (auto simp: getFullYear_def getMonth_def N_def[symmetric] intro!: newDate_valid)
qed

lemma mem_habit_stats_streak:
  assumes "parseDay date = Some n"
  shows "map_sum id currentStreak (mem_habit_stats z st date (n * msPerDay) habit) =
           Inr (mem_streak_loop z 365
                  (sort_desc c_date (mem_getHabitCompletions st (h_id habit) None None))
                  (n * msPerDay) 0) \<and>
         map_sum id hs_habit (mem_habit_stats z st date (n * msPerDay) habit) = Inr habit"
proof -
  from habit_month_valid[OF assms, of z] obtain s e where
    "newDate z (getFullYear z (n * msPerDay)) (getMonth z (n * msPerDay)) 1 = Some s"
    "newDate z (getFullYear z (n * msPerDay)) (getMonth z (n * msPerDay) + 1) 0 = Some e" by blast
  then show ?thesis by (simp add: mem_habit_stats_def monthly_filter_def Let_def)
qed

lemma promise_all_map:
  assumes "\<And>x. x \<in> set xs \<Longrightarrow> map_sum id g (f x) = Inr x"
  shows "\<exists>ys. promise_all (map f xs) = Inr ys \<and> map g ys = xs"
  using assms
proof (induction xs)
  case Nil
  then show ?case by simp
next
  case (Cons x xs)
  then obtain ys where ys: "promise_all (map f xs) = Inr ys" "map g ys = xs" by auto
  from Cons.prems[of x] obtain y where "f x = Inr y" "g y = x" by (cases "f x") auto
  with ys show ?case by simp
qed

lemma mem_streak_counts_back:
  assumes "\<bar>c\<bar> < msPerDay" "completions_keyed st" "parseDay date = Some n" "k \<le> 365"
    and "\<forall>j<k. mem_completed st (isoDay (n - int j)) habit"
    and "k < 365 \<longrightarrow> \<not> mem_completed st (isoDay (n - int k)) habit"
  shows "(\<exists>hs. mem_getHabitsWithStats (fixed_zone c) st date = Inr hs \<and>
               map hs_habit hs = mem_getHabits st) \<and>
         mem_getHabitsWithStats (fixed_zone c) st date =
           promise_all (map (mem_habit_stats (fixed_zone c) st date (n * msPerDay)) (mem_getHabits st)) \<and>
         map_sum id currentStreak (mem_habit_stats (fixed_zone c) st date (n * msPerDay) habit) = Inr k"
proof -
  have "mem_streak_loop (fixed_zone c) 365
      (sort_desc c_date (mem_getHabitCompletions st (h_id habit) None None)) (n * msPerDay) 0 = 0 + k"
    using assms(4-6)
    by (intro mem_streak_loop_count[OF assms(1)])
       (simp_all add: mem_find_completion[OF assms(2)] mem_completed_find)
  with mem_habit_stats_streak[OF assms(3), of "fixed_zone c" st habit]
  have s: "map_sum id currentStreak (mem_habit_stats (fixed_zone c) st date (n * msPerDay) habit) = Inr k"
    by simp
  have g: "mem_getHabitsWithStats (fixed_zone c) st date =
      promise_all (map (mem_habit_stats (fixed_zone c) st date (n * msPerDay)) (mem_getHabits st))"
    by (simp add: mem_getHabitsWithStats_def parseDate_day[OF assms(3)])
  have "\<exists>hs. promise_all (map (mem_habit_stats (fixed_zone c) st date (n * msPerDay)) (mem_getHabits st)) = Inr hs \<and>
      map hs_habit hs = mem_getHabits st"
    by (rule promise_all_map) (simp add: mem_habit_stats_streak[OF assms(3)])
  with s g show ?thesis by simp
qed

text \<open>
  Where local time is a constant offset from UTC, the streak of a habit in
  \<^verbatim>\<open>MemStorage.getHabitsWithStats\<close> counts the completed days back from the reference date,
  across month boundaries, up to the cap of 365: if the habit has a completed record on each
  of the \<open>k\<close> days up to the reference date and, unless the cap is reached, none on the day
  before them, the streak is \<open>k\<close>, and the call returns the statistics of every active habit.
\<close>

theorem mem_currentStreak_counts_back:
  assumes "\<bar>c\<bar> < msPerDay" "completions_keyed st" "parseDay date = Some n" "k \<le> 365"
    and "\<forall>j<k. mem_completed st (isoDay (n - int j)) habit"
    and "k < 365 \<longrightarrow> \<not> mem_completed st (isoDay (n - int k)) habit"
  shows "(\<exists>hs. mem_getHabitsWithStats (fixed_zone c) st date = Inr hs \<and>
               map hs_habit hs = mem_getHabits st) \<and>
         mem_getHabitsWithStats (fixed_zone c) st date =
           promise_all (map (mem_habit_stats (fixed_zone c) st date (n * msPerDay)) (mem_getHabits st)) \<and>
         map_sum id currentStreak (mem_habit_stats (fixed_zone c) st date (n * msPerDay) habit) = Inr k"
  using assms by (rule mem_streak_counts_back)

lemma iso_19780: "isoDay 19780 = ''2024-02-27''"
proof -
  have "civil_from_days 19780 = (2024, 2, 27)"
    by (rule civil_eval; simp add: calendar_eval)
  then show ?thesis by (simp add: isoDay_def string_eval)
qed

lemma leap_store_facts:
  "completions_keyed (mem_of one_habit cs_leap [])"
  "mem_completed (mem_of one_habit cs_leap []) ''2024-03-01'' the_habit"
  "mem_completed (mem_of one_habit cs_leap []) ''2024-02-29'' the_habit"
  "mem_completed (mem_of one_habit cs_leap []) ''2024-02-28'' the_habit"
  "\<not> mem_completed (mem_of one_habit cs_leap []) ''2024-02-27'' the_habit"
  by (simp_all add: completions_keyed_def store_eval cs_leap_def the_habit_def)

lemma leap_store_run:
  "\<forall>j<3. mem_completed (mem_of one_habit cs_leap []) (isoDay (19783 - int j)) the_habit"
  "(3::nat) < 365 \<longrightarrow> \<not> mem_completed (mem_of one_habit cs_leap []) (isoDay (19783 - int 3)) the_habit"
  using leap_store_facts
  by (simp_all add: eval_nat_numeral less_Suc_eq iso_2024 iso_19780 all_conj_distrib)

lemma leap_habits:
  "db_getHabits (db_of one_habit cs_leap []) = [the_habit]"
  "mem_getHabits (mem_of one_habit cs_leap []) = [the_habit]"
  by (simp_all add: store_eval one_habit_def the_habit_def)

lemma mem_leap_first_of_march:
  assumes "\<bar>c\<bar> < msPerDay"
  shows "map_sum id (map currentStreak)
           (mem_getHabitsWithStats (fixed_zone c) (mem_of one_habit cs_leap []) ''2024-03-01'') = Inr [3]"
proof -
  note r = mem_streak_counts_back[OF assms leap_store_facts(1) parse_2024(2) _ leap_store_run]
  from r obtain s where
    s: "mem_habit_stats (fixed_zone c) (mem_of one_habit cs_leap []) ''2024-03-01'' (19783 * msPerDay) the_habit = Inr s"
      "currentStreak s = 3"
    by (cases "mem_habit_stats (fixed_zone c) (mem_of one_habit cs_leap []) ''2024-03-01'' (19783 * msPerDay) the_habit")
       auto
  from r have "mem_getHabitsWithStats (fixed_zone c) (mem_of one_habit cs_leap []) ''2024-03-01'' =
      promise_all [mem_habit_stats (fixed_zone c) (mem_of one_habit cs_leap []) ''2024-03-01'' (19783 * msPerDay) the_habit]"
    by (simp add: leap_habits)
  with s show ?thesis by simp
qed

theorem mem_currentStreak_counts_back_witness:
  "\<bar>32400000\<bar> < msPerDay \<and>
   completions_keyed (mem_of one_habit cs_leap []) \<and> parseDay ''2024-03-01'' = Some 19783 \<and>
   (3::nat) \<le> 365 \<and>
   mem_completed (mem_of one_habit cs_leap []) ''2024-03-01'' the_habit \<and>
   mem_completed (mem_of one_habit cs_leap []) ''2024-02-29'' the_habit \<and>
   mem_completed (mem_of one_habit cs_leap []) ''2024-02-28'' the_habit \<and>
   \<not> mem_completed (mem_of one_habit cs_leap []) ''2024-02-27'' the_habit \<and>
   map_sum id currentStreak
     (mem_habit_stats tokyo (mem_of one_habit cs_leap []) ''2024-03-01'' (19783 * msPerDay) the_habit) = Inr 3"
proof -
  have c: "\<bar>32400000\<bar> < msPerDay" by (simp add: msPerDay_def)
  from mem_currentStreak_counts_back[OF c leap_store_facts(1) parse_2024(2) _ leap_store_run]
    leap_store_facts parse_2024(2) c
  show ?thesis by (simp add: tokyo_def)
qed

subsection \<open>The database-backed store at the first of a month\<close>

lemma leap_monthly:
  "db_getHabitCompletions (db_of one_habit cs_leap []) 1 (Some ''2024-03-01'') (Some ''2024-03-31'')
      = [ex_completion 3 1 ''2024-03-01'' True]"
  "db_getHabitCompletions (db_of one_habit cs_leap []) 1 (Some ''2024-02-01'') (Some ''2024-02-29'')
      = [ex_completion 1 1 ''2024-02-28'' True, ex_completion 2 1 ''2024-02-29'' True]"
  by (simp_all add: db_getHabitCompletions_def db_in_range_def db_of_def cs_leap_def ex_completion_def
      less_eq_char_def less_char_def)

lemma leap_month_strings:
  "db_dateStr 2024 3 1 = ''2024-03-01''"
  "js_String 2024 @ CHR ''-'' # pad2 3 @ CHR ''-'' # padStart 2 CHR ''0'' (num_String (Some 31)) = ''2024-03-31''"
  "db_dateStr 2024 2 1 = ''2024-02-01''"
  "js_String 2024 @ CHR ''-'' # pad2 2 @ CHR ''-'' # padStart 2 CHR ''0'' (num_String (Some 29)) = ''2024-02-29''"
  by (simp_all add: string_eval num_String_def)

lemma leap_parse:
  "parseDate ''2024-03-01'' = Some 1709251200000" "parseDate ''2024-02-01'' = Some 1706745600000"
  by (simp_all add: parseDate_def parseDay_def string_eval calendar_eval msPerDay_def)

lemma db_leap_first_of_march:
  "currentStreak (db_habit_stats utc (db_of one_habit cs_leap []) ''2024-03-01'' the_habit) = 1"
proof -
  have y: "getFullYear utc 1709251200000 = 2024" "getMonth utc 1709251200000 = 2"
    by (simp_all add: getFullYear_def getMonth_def utc_time Day_def msPerDay_def
        yearOfDay_def monthOfDay_def civil_2024)
  have dim: "lastDate utc 2024 3 = Some 31"
    using lastDate_month[of 2024 3 utc] by (simp add: calendar_eval)
  have loop: "db_streak_loop utc (completions_map [ex_completion 3 1 ''2024-03-01'' True])
      1709251200000 1709251200000 0 = 1"
    by (simp add: db_streak_loop.simps[of _ _ 1709251200000 1709251200000]
        db_streak_loop.simps[of _ _ 1709251200000 1709164800000]
        completions_map_def ex_completion_def toISODate_def Day_def utc_time msPerDay_def iso_2024)
  show ?thesis
    by (simp add: db_habit_stats_def leap_parse y dim leap_month_strings leap_monthly loop
        the_habit_def ex_habit_def Let_def del: One_nat_def)
qed

lemma db_leap_first_of_march_west:
  "currentStreak (db_habit_stats eastern_standard (db_of one_habit cs_leap []) ''2024-03-01'' the_habit) = 0"
proof -
  have c: "\<bar>- 18000000\<bar> < msPerDay" by (simp add: msPerDay_def)
  have y: "getFullYear eastern_standard 1709251200000 = 2024" "getMonth eastern_standard 1709251200000 = 1"
    by (simp_all add: getFullYear_def getMonth_def eastern_standard_def fixed_zone_time[OF c]
        Day_def msPerDay_def yearOfDay_def monthOfDay_def civil_2024)
  have dim: "lastDate eastern_standard 2024 2 = Some 29"
    using lastDate_month[of 2024 2 eastern_standard] by (simp add: calendar_eval)
  have loop: "db_streak_loop eastern_standard
      (completions_map [ex_completion 1 1 ''2024-02-28'' True, ex_completion 2 1 ''2024-02-29'' True])
      1706745600000 1709251200000 0 = 0"
    by (simp add: db_streak_loop.simps[of _ _ 1706745600000 1709251200000]
        completions_map_def ex_completion_def toISODate_def Day_def msPerDay_def iso_2024)
  show ?thesis
    by (simp add: db_habit_stats_def leap_parse y dim leap_month_strings leap_monthly loop
        the_habit_def ex_habit_def Let_def del: One_nat_def)
qed

text \<open>
  Claim C4. The streak is to count the consecutive completed days back from the reference
  date whatever the month. \<^verbatim>\<open>DatabaseStorage.getHabitsWithStats\<close> looks only at the records
  of the month of the reference date and stops walking at the first of that month: for a
  habit done on 2024-02-28, 2024-02-29 and 2024-03-01 and not on 2024-02-27 it answers at the
  reference date 2024-03-01 a streak of 1 in UTC, and of 0 five hours west of it, where the
  reference date falls in the local February; the claim and
  \<^verbatim>\<open>MemStorage.getHabitsWithStats\<close> give 3.
\<close>

theorem db_currentStreak_stops_at_month_start:
  "map currentStreak (db_getHabitsWithStats utc (db_of one_habit cs_leap []) ''2024-03-01'') = [1] \<and>
   map_sum id (map currentStreak)
     (mem_getHabitsWithStats utc (mem_of one_habit cs_leap []) ''2024-03-01'') = Inr [3] \<and>
   db_completed (db_of one_habit cs_leap []) ''2024-03-01'' the_habit \<and>
   db_completed (db_of one_habit cs_leap []) ''2024-02-29'' the_habit \<and>
   db_completed (db_of one_habit cs_leap []) ''2024-02-28'' the_habit \<and>
   \<not> db_completed (db_of one_habit cs_leap []) ''2024-02-27'' the_habit \<and>
   map currentStreak
     (db_getHabitsWithStats eastern_standard (db_of one_habit cs_leap []) ''2024-03-01'') = [0] \<and>
   map_sum id (map currentStreak)
     (mem_getHabitsWithStats eastern_standard (mem_of one_habit cs_leap []) ''2024-03-01'') = Inr [3]"
proof -
  have c: "db_completed (db_of one_habit cs_leap []) ''2024-03-01'' the_habit"
    "db_completed (db_of one_habit cs_leap []) ''2024-02-29'' the_habit"
    "db_completed (db_of one_habit cs_leap []) ''2024-02-28'' the_habit"
    "\<not> db_completed (db_of one_habit cs_leap []) ''2024-02-27'' the_habit"
    by (simp_all add: store_eval cs_leap_def the_habit_def)
  have d: "map currentStreak (db_getHabitsWithStats utc (db_of one_habit cs_leap []) ''2024-03-01'') = [1]"
    "map currentStreak
       (db_getHabitsWithStats eastern_standard (db_of one_habit cs_leap []) ''2024-03-01'') = [0]"
    by (simp_all add: db_getHabitsWithStats_def leap_habits db_leap_first_of_march
        db_leap_first_of_march_west)
  have m: "map_sum id (map currentStreak)
      (mem_getHabitsWithStats utc (mem_of one_habit cs_leap []) ''2024-03-01'') = Inr [3]"
    "map_sum id (map currentStreak)
      (mem_getHabitsWithStats eastern_standard (mem_of one_habit cs_leap []) ''2024-03-01'') = Inr [3]"
    using mem_leap_first_of_march[of 0] mem_leap_first_of_march[of "- 18000000"]
    by (simp_all add: utc_def eastern_standard_def msPerDay_def)
  from c d m show ?thesis by simp
qed

section \<open>Deleted habits\<close>

subsection \<open>The map of habits\<close>

lemma habits_keyed_new: "habits_keyed mem_new"
  by (simp add: habits_keyed_def mem_new_def initializeDefaultHabits_def defaultHabits_def
      mem_createHabit_def Let_def)

lemma keys_update: "fst ` set (AList.update k v xs) = insert k (fst ` set xs)"
  by (induction xs) auto

lemma list_all_update:
  "list_all P xs \<Longrightarrow> P (k, v) \<Longrightarrow> list_all P (AList.update k v xs)"
  by (induction xs) auto

lemma list_all_weaken: "list_all P xs \<Longrightarrow> (\<And>x. P x \<Longrightarrow> Q x) \<Longrightarrow> list_all Q xs"
  by (induction xs) auto

lemma map_of_keyed:
  "list_all (\<lambda>(k, h). h_id h = k \<and> k < n) xs \<Longrightarrow> map_of xs i = Some h \<Longrightarrow> h_id h = i \<and> i < n"
  by (induction xs) (auto split: if_splits)

lemma habits_keyed_createHabit:
  assumes "habits_keyed st" shows "habits_keyed (snd (mem_createHabit insertHabit st))"
proof -
  from assms have "list_all (\<lambda>(k, h). h_id h = k \<and> k < currentHabitId st + 1) (habits st)"
    unfolding habits_keyed_def by (auto elim: list_all_weaken)
  with assms show ?thesis
    by (simp add: habits_keyed_def mem_createHabit_def Let_def distinct_update list_all_update)
qed

lemma habits_keyed_updateHabit:
  assumes "habits_keyed st" shows "habits_keyed (snd (mem_updateHabit i updates st))"
proof (cases "map_of (habits st) i")
  case None then show ?thesis using assms by (simp add: mem_updateHabit_def)
next
  case (Some h)
  with assms have "h_id h = i \<and> i < currentHabitId st"
    unfolding habits_keyed_def by (blast dest: map_of_keyed)
  with assms Some show ?thesis
    by (simp add: habits_keyed_def mem_updateHabit_def Let_def distinct_update list_all_update
        apply_habit_updates_def)
qed

lemma habits_keyed_deleteHabit:
  assumes "habits_keyed st" shows "habits_keyed (snd (mem_deleteHabit i st))"
proof (cases "map_of (habits st) i")
  case None then show ?thesis using assms by (simp add: mem_deleteHabit_def)
next
  case (Some h)
  with assms have "h_id h = i \<and> i < currentHabitId st"
    unfolding habits_keyed_def by (blast dest: map_of_keyed)
  with assms Some show ?thesis
    by (simp add: habits_keyed_def mem_deleteHabit_def Let_def distinct_update list_all_update)
qed

lemma habits_keyed_after: "habits_keyed st \<Longrightarrow> habits_keyed (mem_after c st)"
proof (cases c)
  case (CreateOrUpdateHabitCompletion x)
  assume "habits_keyed st"
  then show ?thesis unfolding CreateOrUpdateHabitCompletion
    by (simp add: habits_keyed_def mem_createOrUpdateHabitCompletion_def Let_def split: option.split)
next
  case (UpdateTradeReview i r)
  assume "habits_keyed st"
  then show ?thesis unfolding UpdateTradeReview
    by (simp add: habits_keyed_def mem_updateTradeReview_def Let_def split: option.split)
qed (simp_all add: habits_keyed_createHabit habits_keyed_updateHabit habits_keyed_deleteHabit,
     simp_all add: habits_keyed_def mem_createTradeReview_def mem_deleteTradeReview_def Let_def)

lemma reachable_habits_keyed: "mem_reachable st \<Longrightarrow> habits_keyed st"
  by (induction rule: mem_reachable.induct) (simp_all add: habits_keyed_new habits_keyed_after)


lemma completions_keyed_after: "completions_keyed st \<Longrightarrow> completions_keyed (mem_after c st)"
proof (cases c)
  case (CreateOrUpdateHabitCompletion x)
  assume k: "completions_keyed st"
  show ?thesis
  proof (cases "map_of (habitCompletions st) (ic_habitId x, ic_date x)")
    case None
    with k show ?thesis unfolding CreateOrUpdateHabitCompletion
      by (simp add: completions_keyed_def mem_createOrUpdateHabitCompletion_def Let_def
          list_all_update)
  next
    case (Some e)
    then have "((ic_habitId x, ic_date x), e) \<in> set (habitCompletions st)" by (rule map_of_SomeD)
    with k have "c_habitId e = ic_habitId x" "c_date e = ic_date x"
      by (auto simp: completions_keyed_def list_all_iff)
    with k Some show ?thesis unfolding CreateOrUpdateHabitCompletion
      by (simp add: completions_keyed_def mem_createOrUpdateHabitCompletion_def Let_def
          list_all_update)
  qed
next
  case (UpdateHabit i u)
  assume "completions_keyed st"
  then show ?thesis unfolding UpdateHabit
    by (simp add: completions_keyed_def mem_updateHabit_def Let_def split: option.split)
next
  case (DeleteHabit i)
  assume "completions_keyed st"
  then show ?thesis unfolding DeleteHabit
    by (simp add: completions_keyed_def mem_deleteHabit_def Let_def split: option.split)
next
  case (UpdateTradeReview i r)
  assume "completions_keyed st"
  then show ?thesis unfolding UpdateTradeReview
    by (simp add: completions_keyed_def mem_updateTradeReview_def Let_def split: option.split)
qed (simp_all add: completions_keyed_def mem_createHabit_def mem_createTradeReview_def
     mem_deleteTradeReview_def Let_def)

lemma completions_keyed_new: "completions_keyed mem_new"
proof -
  have "habitCompletions (foldl (\<lambda>s habit. snd (mem_createHabit habit s)) st hs) = habitCompletions st"
    for st hs
    by (induction hs arbitrary: st) (simp_all add: mem_createHabit_def Let_def)
  then show ?thesis
    by (simp add: completions_keyed_def mem_new_def initializeDefaultHabits_def)
qed

lemma reachable_completions_keyed: "mem_reachable st \<Longrightarrow> completions_keyed st"
  by (induction rule: mem_reachable.induct) (simp_all add: completions_keyed_new completions_keyed_after)

subsection \<open>Answers that do not see a habit\<close>

lemma filter_delete_inactive:
  "distinct (map fst xs) \<Longrightarrow> map_of xs i = Some h \<Longrightarrow> \<not> P h \<Longrightarrow>
   filter P (map snd (AList.delete i xs)) = filter P (map snd xs)"
proof (induction xs)
  case Nil then show ?case by simp
next
  case (Cons x xs)
  show ?case
  proof (cases "fst x = i")
    case True
    with Cons.prems have "snd x = h" "i \<notin> fst ` set xs" by (auto simp: rev_image_eqI)
    then show ?thesis using True Cons.prems(3) by (cases x) (simp add: delete_id)
  next
    case False
    with Cons show ?thesis by (cases x) auto
  qed
qed

lemma getHabits_without_inactive:
  assumes "habits_keyed st" "mem_getHabit st i = Some h" "\<not> h_isActive h"
  shows "mem_getHabits (mem_without_habit i st) = mem_getHabits st"
  using assms
  by (simp add: habits_keyed_def mem_getHabit_def mem_getHabits_def mem_without_habit_def
      filter_delete_inactive)

lemma inactive_not_listed:
  assumes "habits_keyed st" "mem_getHabit st i = Some h" "\<not> h_isActive h"
  shows "i \<notin> set (map h_id (mem_getHabits st))"
proof
  assume "i \<in> set (map h_id (mem_getHabits st))"
  then obtain k g where g: "(k, g) \<in> set (habits st)" "h_isActive g" "h_id g = i"
    by (auto simp: mem_getHabits_def)
  from assms(1) g(1) have "h_id g = k"
    by (auto simp: habits_keyed_def list_all_iff)
  with g assms(1) have "map_of (habits st) i = Some g"
    by (simp add: habits_keyed_def)
  with assms(2,3) g(2) show False by (simp add: mem_getHabit_def)
qed

lemma map_of_filter_other:
  assumes "\<And>k c. (k, c) \<in> set xs \<Longrightarrow> k = key \<Longrightarrow> P (k, c)"
  shows "map_of (filter P xs) key = map_of xs key"
  using assms by (induction xs) auto

lemma without_getHabitCompletion:
  assumes "completions_keyed st" "j \<noteq> i"
  shows "mem_getHabitCompletion (mem_without_habit i st) j d = mem_getHabitCompletion st j d"
  unfolding mem_getHabitCompletion_def mem_without_habit_def
  using assms by (auto simp: completions_keyed_def list_all_iff intro!: map_of_filter_other)

lemma without_getHabitCompletions:
  assumes "j \<noteq> i"
  shows "mem_getHabitCompletions (mem_without_habit i st) j s e = mem_getHabitCompletions st j s e"
proof -
  have "filter Q (map snd (filter (\<lambda>(k, c). c_habitId c \<noteq> i) xs)) = filter Q (map snd xs)"
    if "\<forall>c. Q c \<longrightarrow> c_habitId c \<noteq> i" for Q and xs :: "((nat \<times> string) \<times> HabitCompletion) list"
    using that by (induction xs) auto
  with assms show ?thesis by (simp add: mem_getHabitCompletions_def mem_without_habit_def)
qed

lemma count_completed_cong:
  "(\<And>h. h \<in> set hs \<Longrightarrow> f h = g h) \<Longrightarrow> count_completed f hs = count_completed g hs"
  unfolding count_completed_def by (induction hs rule: rev_induct) simp_all

lemma month_step_cong:
  "(\<And>h d. h \<in> set hs \<Longrightarrow> f d h = g d h) \<Longrightarrow> month_step f hs acc ds = month_step g hs acc ds"
  unfolding month_step_def using count_completed_cong[of hs "f ds" "g ds"] by simp

lemma foldl_month_step_cong:
  "(\<And>h d. h \<in> set hs \<Longrightarrow> f d h = g d h) \<Longrightarrow>
   foldl (month_step f hs) acc dates = foldl (month_step g hs) acc dates"
  by (induction dates arbitrary: acc) (simp_all add: month_step_cong[of hs f g])

lemma mem_aggregations_cong:
  assumes hs: "mem_getHabits st1 = mem_getHabits st2"
    and c: "\<And>h d. h \<in> set (mem_getHabits st2) \<Longrightarrow>
        mem_getHabitCompletion st1 (h_id h) d = mem_getHabitCompletion st2 (h_id h) d"
    and cs: "\<And>h. h \<in> set (mem_getHabits st2) \<Longrightarrow>
        mem_getHabitCompletions st1 (h_id h) None None = mem_getHabitCompletions st2 (h_id h) None None"
  shows "mem_aggregations z st1 date startDate endDate year month =
         mem_aggregations z st2 date startDate endDate year month"
proof -
  have d: "mem_completed st1 ds h = mem_completed st2 ds h" if "h \<in> set (mem_getHabits st2)" for ds h
    using c[OF that] by (simp add: mem_completed_def)
  have s: "mem_habit_stats z st1 dt today h = mem_habit_stats z st2 dt today h"
    if "h \<in> set (mem_getHabits st2)" for dt today h
    unfolding mem_habit_stats_def cs[OF that] by (rule refl)
  have a: "mem_getHabitsWithStats z st1 date = mem_getHabitsWithStats z st2 date"
    unfolding mem_getHabitsWithStats_def hs
    by (cases "parseDate date") (simp_all add: s cong: map_cong)
  have w: "mem_getWeeklyProgress z st1 x y = mem_getWeeklyProgress z st2 x y" for x y
    unfolding mem_getWeeklyProgress_def hs Let_def
    by (intro map_cong refl) (simp add: count_completed_cong[OF d])
  have f: "foldl (month_step (mem_completed st1) (mem_getHabits st2)) acc dates =
           foldl (month_step (mem_completed st2) (mem_getHabits st2)) acc dates" for acc dates
    by (rule foldl_month_step_cong) (rule d)
  have m: "mem_getMonthlyStats z st1 year month = mem_getMonthlyStats z st2 year month"
    unfolding mem_getMonthlyStats_def Let_def hs w f by (rule refl)
  from a w m show ?thesis by (simp add: mem_aggregations_def)
qed

lemma inactive_excluded:
  assumes k: "habits_keyed st" and ck: "completions_keyed st"
    and g: "mem_getHabit st i = Some h" and n: "\<not> h_isActive h"
  shows "mem_excluded z st i date startDate endDate year month"
proof -
  note l = inactive_not_listed[OF k g n]
  have hs: "mem_getHabits st = mem_getHabits (mem_without_habit i st)"
    using getHabits_without_inactive[OF k g n] by simp
  have ne: "h_id x \<noteq> i" if "x \<in> set (mem_getHabits (mem_without_habit i st))" for x
    using that l unfolding hs[symmetric] by auto
  have "mem_aggregations z st date startDate endDate year month =
        mem_aggregations z (mem_without_habit i st) date startDate endDate year month"
    by (rule mem_aggregations_cong[OF hs])
       (simp_all add: without_getHabitCompletion[OF ck ne] without_getHabitCompletions[OF ne])
  with l show ?thesis by (simp add: mem_excluded_def)
qed

lemma deleteHabit_present:
  assumes "mem_getHabit st i = Some h"
  shows "fst (mem_deleteHabit i st)"
    "mem_getHabit (snd (mem_deleteHabit i st)) i = Some (h\<lparr> h_isActive := False \<rparr>)"
  using assms by (simp_all add: mem_getHabit_def mem_deleteHabit_def Let_def update_conv')

subsection \<open>The table of habits\<close>

lemma db_deleteHabit_getHabit:
  "db_getHabit (snd (db_deleteHabit i db)) i =
     map_option (\<lambda>h. h\<lparr> h_isActive := False \<rparr>) (db_getHabit db i)"
proof -
  have "find (\<lambda>h. h_id h = i) (map (\<lambda>h. if h_id h = i then h\<lparr> h_isActive := False \<rparr> else h) xs) =
        map_option (\<lambda>h. h\<lparr> h_isActive := False \<rparr>) (find (\<lambda>h. h_id h = i) xs)" for xs
    by (induction xs) auto
  then show ?thesis by (simp add: db_getHabit_def db_deleteHabit_def)
qed

lemma db_deleteHabit_rowCount: "fst (db_deleteHabit i db) \<longleftrightarrow> db_getHabit db i \<noteq> None"
  by (auto simp: db_deleteHabit_def db_getHabit_def find_None_iff filter_empty_conv)

lemma db_deleteHabit_primary_key:
  "db_primary_key (snd (db_deleteHabit i db)) \<longleftrightarrow> db_primary_key db"
proof -
  have m: "map h_id (map (\<lambda>h. if h_id h = i then h\<lparr> h_isActive := False \<rparr> else h) xs) = map h_id xs" for xs
    by (induction xs) auto
  show ?thesis unfolding db_primary_key_def db_deleteHabit_def snd_conv by (simp add: m del: map_map)
qed

lemma find_unique_row:
  "distinct (map h_id xs) \<Longrightarrow> find (\<lambda>h. h_id h = i) xs = Some g \<Longrightarrow> x \<in> set xs \<Longrightarrow> h_id x = i \<Longrightarrow> x = g"
  by (induction xs) (auto split: if_splits simp: rev_image_eqI)

lemma db_getHabits_without_inactive:
  assumes "db_primary_key db" "db_getHabit db i = Some g" "\<not> h_isActive g"
  shows "db_getHabits (db_without_habit i db) = db_getHabits db"
proof -
  have "filter h_isActive (filter (\<lambda>h. h_id h \<noteq> i) (db_habits db)) = filter h_isActive (db_habits db)"
    unfolding filter_filter
    using assms by (intro filter_cong refl) (auto simp: db_primary_key_def db_getHabit_def dest: find_unique_row)
  then show ?thesis by (simp add: db_getHabits_def db_without_habit_def)
qed

lemma db_inactive_not_listed:
  assumes "db_primary_key db" "db_getHabit db i = Some g" "\<not> h_isActive g"
  shows "i \<notin> set (map h_id (db_getHabits db))"
  using assms
  by (auto simp: db_primary_key_def db_getHabit_def db_getHabits_def dest: find_unique_row)

lemma find_filter_other:
  "(\<And>x. P x \<Longrightarrow> Q x) \<Longrightarrow> find P (filter Q xs) = find P xs"
  by (induction xs) auto

lemma filter_filter_other:
  "(\<And>x. P x \<Longrightarrow> Q x) \<Longrightarrow> filter P (filter Q xs) = filter P xs"
  by (induction xs) auto

lemma db_without_getHabitCompletion:
  "j \<noteq> i \<Longrightarrow> db_getHabitCompletion (db_without_habit i db) j d = db_getHabitCompletion db j d"
  unfolding db_getHabitCompletion_def db_without_habit_def
  by (simp del: filter_filter) (rule find_filter_other, simp)

lemma db_without_getHabitCompletions:
  "j \<noteq> i \<Longrightarrow> db_getHabitCompletions (db_without_habit i db) j s e = db_getHabitCompletions db j s e"
  unfolding db_getHabitCompletions_def db_without_habit_def
  by (simp del: filter_filter) (rule arg_cong[where f = "sort_key c_date"], rule filter_filter_other, simp)

lemma db_aggregations_cong:
  assumes hs: "db_getHabits db1 = db_getHabits db2"
    and c: "\<And>h d. h \<in> set (db_getHabits db2) \<Longrightarrow>
        db_getHabitCompletion db1 (h_id h) d = db_getHabitCompletion db2 (h_id h) d"
    and cs: "\<And>h s e. h \<in> set (db_getHabits db2) \<Longrightarrow>
        db_getHabitCompletions db1 (h_id h) s e = db_getHabitCompletions db2 (h_id h) s e"
  shows "db_aggregations z db1 date startDate endDate year month =
         db_aggregations z db2 date startDate endDate year month"
proof -
  have d: "db_completed db1 ds h = db_completed db2 ds h" if "h \<in> set (db_getHabits db2)" for ds h
    using c[OF that] by (simp add: db_completed_def)
  have s: "db_habit_stats z db1 dt h = db_habit_stats z db2 dt h" if "h \<in> set (db_getHabits db2)" for dt h
    unfolding db_habit_stats_def cs[OF that] d[OF that] by (rule refl)
  have a: "db_getHabitsWithStats z db1 date = db_getHabitsWithStats z db2 date"
    unfolding db_getHabitsWithStats_def hs by (simp add: s)
  have w: "db_getWeeklyProgress z db1 startDate endDate = db_getWeeklyProgress z db2 startDate endDate"
    unfolding db_getWeeklyProgress_def hs Let_def
    by (intro map_cong refl) (simp add: count_completed_cong[OF d])
  have f: "foldl (month_step (db_completed db1) (db_getHabits db2)) acc dates =
           foldl (month_step (db_completed db2) (db_getHabits db2)) acc dates" for acc dates
    by (rule foldl_month_step_cong) (rule d)
  have m: "db_getMonthlyStats z db1 year month = db_getMonthlyStats z db2 year month"
    unfolding db_getMonthlyStats_def Let_def hs f by (rule refl)
  from a w m show ?thesis by (simp add: db_aggregations_def)
qed

lemma db_inactive_excluded:
  assumes p: "db_primary_key db" and g: "db_getHabit db i = Some g" and n: "\<not> h_isActive g"
  shows "db_excluded z db i date startDate endDate year month"
proof -
  note l = db_inactive_not_listed[OF p g n]
  have hs: "db_getHabits db = db_getHabits (db_without_habit i db)"
    using db_getHabits_without_inactive[OF p g n] by simp
  have ne: "h_id x \<noteq> i" if "x \<in> set (db_getHabits (db_without_habit i db))" for x
    using that l unfolding hs[symmetric] by auto
  have "db_aggregations z db date startDate endDate year month =
        db_aggregations z (db_without_habit i db) date startDate endDate year month"
    by (rule db_aggregations_cong[OF hs])
       (simp_all add: db_without_getHabitCompletion[OF ne] db_without_getHabitCompletions[OF ne])
  with l show ?thesis by (simp add: db_excluded_def)
qed

text \<open>
  Claim C9. In both stores \<^verbatim>\<open>deleteHabit\<close> of an id that is present answers \<open>true\<close>, and
  afterwards \<^verbatim>\<open>getHabit\<close> of that id still returns the habit, now with \<^verbatim>\<open>isActive = false\<close>,
  while \<^verbatim>\<open>getHabits\<close> lists no habit of that id and \<^verbatim>\<open>getHabitsWithStats\<close>,
  \<^verbatim>\<open>getWeeklyProgress\<close> and \<^verbatim>\<open>getMonthlyStats\<close> answer what they answer on the store that
  never held the habit, neither its row nor its completion records, whatever the time zone.
  The same exclusion holds for every habit whose flag is off in every state that
  \<^verbatim>\<open>MemStorage\<close> reaches from its constructor, and in every table of habits whose ids
  identify the rows.
\<close>

theorem soft_deleted_habit_excluded:
  "(mem_reachable st \<and> mem_getHabit st i = Some h \<longrightarrow>
      fst (mem_deleteHabit i st) \<and> mem_reachable (snd (mem_deleteHabit i st)) \<and>
      mem_getHabit (snd (mem_deleteHabit i st)) i = Some (h\<lparr> h_isActive := False \<rparr>) \<and>
      mem_excluded z (snd (mem_deleteHabit i st)) i date startDate endDate year month) \<and>
   (mem_reachable st \<and> mem_getHabit st i = Some h \<and> \<not> h_isActive h \<longrightarrow>
      h_id h = i \<and> mem_excluded z st i date startDate endDate year month) \<and>
   (db_primary_key db \<and> db_getHabit db i = Some g \<longrightarrow>
      fst (db_deleteHabit i db) \<and> db_primary_key (snd (db_deleteHabit i db)) \<and>
      db_getHabit (snd (db_deleteHabit i db)) i = Some (g\<lparr> h_isActive := False \<rparr>) \<and>
      db_excluded z (snd (db_deleteHabit i db)) i date startDate endDate year month) \<and>
   (db_primary_key db \<and> db_getHabit db i = Some g \<and> \<not> h_isActive g \<longrightarrow>
      h_id g = i \<and> db_excluded z db i date startDate endDate year month)"
proof (intro conjI impI; (elim conjE)?)
  assume r: "mem_reachable st" and g: "mem_getHabit st i = Some h"
  show "fst (mem_deleteHabit i st)"
    and g': "mem_getHabit (snd (mem_deleteHabit i st)) i = Some (h\<lparr> h_isActive := False \<rparr>)"
    using g by (rule deleteHabit_present)+
  from r have r': "mem_reachable (mem_after (DeleteHabit i) st)" by (rule mem_reachable.call)
  then show r'': "mem_reachable (snd (mem_deleteHabit i st))" by simp
  show "mem_excluded z (snd (mem_deleteHabit i st)) i date startDate endDate year month"
    using inactive_excluded[OF reachable_habits_keyed[OF r''] reachable_completions_keyed[OF r''] g'] by simp
next
  assume r: "mem_reachable st" and g: "mem_getHabit st i = Some h" and "\<not> h_isActive h"
  then show "mem_excluded z st i date startDate endDate year month"
    by (intro inactive_excluded reachable_habits_keyed reachable_completions_keyed)
  from r have "habits_keyed st" by (rule reachable_habits_keyed)
  with g show "h_id h = i"
    unfolding habits_keyed_def mem_getHabit_def by (blast dest: map_of_keyed)
next
  assume p: "db_primary_key db" and g: "db_getHabit db i = Some g"
  then show "fst (db_deleteHabit i db)" by (simp add: db_deleteHabit_rowCount)
  from p show p': "db_primary_key (snd (db_deleteHabit i db))" by (simp add: db_deleteHabit_primary_key)
  from g show g': "db_getHabit (snd (db_deleteHabit i db)) i = Some (g\<lparr> h_isActive := False \<rparr>)"
    by (simp add: db_deleteHabit_getHabit)
  show "db_excluded z (snd (db_deleteHabit i db)) i date startDate endDate year month"
    using db_inactive_excluded[OF p' g'] by simp
next
  assume p: "db_primary_key db" and g: "db_getHabit db i = Some g" and "\<not> h_isActive g"
  then show "db_excluded z db i date startDate endDate year month" by (intro db_inactive_excluded)
  from g show "h_id g = i" by (auto simp: db_getHabit_def dest: find_Some_iff[THEN iffD1])
qed

lemma second_deleted_facts:
  "mem_reachable second_deleted"
  "mem_getHabit second_deleted 2 = Some honor_stop_losses"
  "\<not> h_isActive honor_stop_losses"
  "map h_id (mem_getHabits second_deleted) = [1, 3, 4]"
  "db_primary_key table_second_deleted"
  "db_getHabit table_second_deleted 2 = Some honor_stop_losses"
  "map h_id (db_getHabits table_second_deleted) = [1, 3]"
  "honor_stop_losses\<lparr> h_isActive := False \<rparr> = honor_stop_losses"
  "mem_completed second_deleted ''2024-03-01'' honor_stop_losses"
  "db_completed table_second_deleted ''2024-03-01'' honor_stop_losses"
  unfolding second_deleted_def table_second_deleted_def
  by (intro mem_reachable.intros,
      simp_all add: mem_new_def initializeDefaultHabits_def defaultHabits_def mem_createHabit_def
        mem_deleteHabit_def mem_getHabit_def mem_getHabits_def honor_stop_losses_def Let_def
        mem_createOrUpdateHabitCompletion_def mem_completed_def mem_getHabitCompletion_def
        db_primary_key_def db_getHabit_def db_getHabits_def db_of_def ex_habit_def
        db_completed_def db_getHabitCompletion_def ex_completion_def
        less_eq_char_def less_char_def)

lemma march_first: "date_range utc ''2024-03-01'' ''2024-03-01'' = [19783 * msPerDay]"
  unfolding utc_def by (subst date_range_fixed) (simp_all add: msPerDay_def day_range_def parse_2024)

lemma second_deleted_rates:
  "map p_completionRate (mem_getWeeklyProgress utc second_deleted ''2024-03-01'' ''2024-03-01'') = [Num 0]"
  "map p_completionRate (db_getWeeklyProgress utc table_second_deleted ''2024-03-01'' ''2024-03-01'') = [Num 0]"
  unfolding second_deleted_def table_second_deleted_def
  by (simp_all add: mem_getWeeklyProgress_def db_getWeeklyProgress_def march_first
      iso_2024 mem_new_def initializeDefaultHabits_def defaultHabits_def mem_createHabit_def
      mem_deleteHabit_def mem_getHabits_def honor_stop_losses_def Let_def
      mem_createOrUpdateHabitCompletion_def mem_completed_def mem_getHabitCompletion_def
      db_getHabits_def db_of_def ex_habit_def db_completed_def db_getHabitCompletion_def
      ex_completion_def less_eq_char_def less_char_def count_completed_def day_rate_def
      js_of_nat_def)

theorem soft_deleted_habit_excluded_witness:
  "mem_reachable second_deleted \<and> mem_getHabit second_deleted 2 = Some honor_stop_losses \<and>
   \<not> h_isActive honor_stop_losses \<and>
   fst (mem_deleteHabit 2 second_deleted) \<and>
   mem_getHabit (snd (mem_deleteHabit 2 second_deleted)) 2 = Some honor_stop_losses \<and>
   map h_id (mem_getHabits second_deleted) = [1, 3, 4] \<and>
   mem_completed second_deleted ''2024-03-01'' honor_stop_losses \<and>
   map p_completionRate (mem_getWeeklyProgress utc second_deleted ''2024-03-01'' ''2024-03-01'') = [Num 0] \<and>
   mem_excluded berlin second_deleted 2 ''2024-03-01'' ''2024-03-01'' ''2024-03-01'' 2024 3 \<and>
   db_primary_key table_second_deleted \<and>
   db_getHabit table_second_deleted 2 = Some honor_stop_losses \<and>
   fst (db_deleteHabit 2 table_second_deleted) \<and>
   db_getHabit (snd (db_deleteHabit 2 table_second_deleted)) 2 = Some honor_stop_losses \<and>
   map h_id (db_getHabits table_second_deleted) = [1, 3] \<and>
   db_completed table_second_deleted ''2024-03-01'' honor_stop_losses \<and>
   map p_completionRate (db_getWeeklyProgress utc table_second_deleted ''2024-03-01'' ''2024-03-01'') = [Num 0] \<and>
   db_excluded berlin table_second_deleted 2 ''2024-03-01'' ''2024-03-01'' ''2024-03-01'' 2024 3"
  using soft_deleted_habit_excluded[where z = berlin and st = second_deleted and i = 2 and h = honor_stop_losses
      and db = table_second_deleted and g = honor_stop_losses and date = "''2024-03-01''"
      and startDate = "''2024-03-01''" and endDate = "''2024-03-01''" and year = 2024 and month = 3]
    second_deleted_facts second_deleted_rates
  by simp

end
